theory Spec2Isabelle
  imports Main
begin

section \<open>Strings\<close>

text \<open>
  The models (\<open>event.model.ts\<close>, \<open>booking.model.ts\<close>) work on JavaScript strings. A string
  is modelled as a \<^typ>\<open>string\<close>, a list of 8-bit characters. The characters below 128 are
  the ASCII characters, and on them the character classes and the case mappings below are
  those of JavaScript: \<open>\s\<close> and \<open>trim\<close> take tab, line feed, vertical tab, form feed,
  carriage return and space; \<open>\w\<close> is \<open>[A-Za-z0-9_]\<close>; \<open>\d\<close> is \<open>[0-9]\<close>. The characters
  from 128 up stand for code units outside ASCII: they are in no class and the case mappings
  keep them (the Unicode white space and the Unicode case tables are outside the model).
\<close>

definition upperLetters :: string where
  "upperLetters = ''ABCDEFGHIJKLMNOPQRSTUVWXYZ''"

definition lowerLetters :: string where
  "lowerLetters = ''abcdefghijklmnopqrstuvwxyz''"

definition digits :: string where
  "digits = ''0123456789''"

definition isSpace :: "char \<Rightarrow> bool" where
  "isSpace c \<longleftrightarrow> c \<in> set [CHR 0x09, CHR 0x0A, CHR 0x0B, CHR 0x0C, CHR 0x0D, CHR 0x20]"

definition isDigit :: "char \<Rightarrow> bool" where
  "isDigit c \<longleftrightarrow> c \<in> set digits"

definition isWord :: "char \<Rightarrow> bool" where
  "isWord c \<longleftrightarrow> c \<in> set (upperLetters @ lowerLetters @ digits @ ''_'')"

definition isUpper :: "char \<Rightarrow> bool" where
  "isUpper c \<longleftrightarrow> c \<in> set upperLetters"

definition isLower :: "char \<Rightarrow> bool" where
  "isLower c \<longleftrightarrow> c \<in> set lowerLetters"

definition isHyphen :: "char \<Rightarrow> bool" where
  "isHyphen c \<longleftrightarrow> c = CHR ''-''"

definition lowerChar :: "char \<Rightarrow> char" where
  "lowerChar c = (case map_of (zip upperLetters lowerLetters) c of None \<Rightarrow> c | Some d \<Rightarrow> d)"

definition upperChar :: "char \<Rightarrow> char" where
  "upperChar c = (case map_of (zip lowerLetters upperLetters) c of None \<Rightarrow> c | Some d \<Rightarrow> d)"

text \<open>\<open>String.prototype.toLowerCase\<close>, \<open>toUpperCase\<close> and \<open>trim\<close>.\<close>

definition toLowerCase :: "string \<Rightarrow> string" where
  "toLowerCase s = map lowerChar s"

definition toUpperCase :: "string \<Rightarrow> string" where
  "toUpperCase s = map upperChar s"

definition trimStart :: "string \<Rightarrow> string" where
  "trimStart s = dropWhile isSpace s"

definition trimEnd :: "string \<Rightarrow> string" where
  "trimEnd s = rev (dropWhile isSpace (rev s))"

definition trim :: "string \<Rightarrow> string" where
  "trim s = trimEnd (trimStart s)"

section \<open>The slug normalizer\<close>

text \<open>
  \<^verbatim>\<open>
  function generateSlug(title: string): string {
    return title
      .toLowerCase()
      .trim()
      .replace(/[^\w\s-]/g, '')
      .replace(/\s+/g, '-')
      .replace(/--+/g, '-')
      .replace(/^-+|-+$/g, '');
  }
  \<close>
  A global \<open>replace\<close> scans from the left and replaces each leftmost, greedy match. Each of
  the four replacements is one function on the list of characters.
\<close>

text \<open>\<open>.replace(/[^\w\s-]/g, '')\<close>: every character outside the three classes is dropped.\<close>

definition removeSpecial :: "string \<Rightarrow> string" where
  "removeSpecial s = filter (\<lambda>c. isWord c \<or> isSpace c \<or> isHyphen c) s"

text \<open>\<open>.replace(/\s+/g, '-')\<close>: a maximal run of white space becomes one hyphen.\<close>

function spacesToHyphen :: "string \<Rightarrow> string" where
  "spacesToHyphen [] = []"
| "spacesToHyphen (c # cs) =
     (if isSpace c then CHR ''-'' # spacesToHyphen (dropWhile isSpace cs)
      else c # spacesToHyphen cs)"
  by pat_completeness auto
termination
  by (relation "measure length") (simp_all add: length_dropWhile_le le_imp_less_Suc)

text \<open>\<open>.replace(/--+/g, '-')\<close>: a maximal run of two or more hyphens becomes one hyphen.\<close>

function collapseHyphens :: "string \<Rightarrow> string" where
  "collapseHyphens [] = []"
| "collapseHyphens [c] = [c]"
| "collapseHyphens (c # d # cs) =
     (if isHyphen c \<and> isHyphen d then CHR ''-'' # collapseHyphens (dropWhile isHyphen cs)
      else c # collapseHyphens (d # cs))"
  by pat_completeness auto
termination
  by (relation "measure length") (simp_all add: length_dropWhile_le le_imp_less_Suc le_SucI)

text \<open>
  \<open>.replace(/^-+|-+$/g, '')\<close>: the first alternative matches the run of hyphens at the start,
  the second one the run of hyphens that reaches the end; nothing else is matched.
\<close>

definition stripHyphens :: "string \<Rightarrow> string" where
  "stripHyphens s = rev (dropWhile isHyphen (rev (dropWhile isHyphen s)))"

definition generateSlug :: "string \<Rightarrow> string" where
  "generateSlug title =
     stripHyphens (collapseHyphens (spacesToHyphen (removeSpecial (trim (toLowerCase title)))))"

text \<open>The characters a slug is made of: \<open>[a-z0-9_]\<close>, the word characters that are not upper case.\<close>

definition isSlugChar :: "char \<Rightarrow> bool" where
  "isSlugChar c \<longleftrightarrow> c \<in> set (lowerLetters @ digits @ ''_'')"

text \<open>
  The shape of a slug: slug characters and hyphens only, no two hyphens in a row, no hyphen
  at either end.
\<close>

fun singleHyphens :: "string \<Rightarrow> bool" where
  "singleHyphens (a # b # cs) = (\<not> (isHyphen a \<and> isHyphen b) \<and> singleHyphens (b # cs))"
| "singleHyphens _ = True"

definition slugForm :: "string \<Rightarrow> bool" where
  "slugForm t \<longleftrightarrow> list_all (\<lambda>c. isSlugChar c \<or> isHyphen c) t \<and> singleHyphens t
     \<and> (t = [] \<or> (\<not> isHyphen (hd t) \<and> \<not> isHyphen (last t)))"

section \<open>Regular expressions\<close>

text \<open>
  The regular expressions of the source are values of a datatype, built as the source
  writes them: a character class, sequence, alternative, \<open>?\<close>, \<open>+\<close> and \<open>*\<close>. All three
  expressions that the source tests a string against are anchored at both ends
  (\<open>^\<close> ... \<open>$\<close>, no \<open>m\<close> flag), so \<open>matches\<close> decides whether the whole string matches; it
  does so by taking the derivative of the expression by each character in turn.
\<close>

datatype regex =
    Never
  | Eps
  | Class "char \<Rightarrow> bool"
  | Seq regex regex
  | Alt regex regex
  | Star regex

definition Opt :: "regex \<Rightarrow> regex" where
  "Opt r = Alt r Eps"

definition Plus :: "regex \<Rightarrow> regex" where
  "Plus r = Seq r (Star r)"

definition Chr :: "char \<Rightarrow> regex" where
  "Chr c = Class (\<lambda>x. x = c)"

definition oneOf :: "string \<Rightarrow> char \<Rightarrow> bool" where
  "oneOf cs c \<longleftrightarrow> c \<in> set cs"

primrec nullable :: "regex \<Rightarrow> bool" where
  "nullable Never = False"
| "nullable Eps = True"
| "nullable (Class P) = False"
| "nullable (Seq r s) = (nullable r \<and> nullable s)"
| "nullable (Alt r s) = (nullable r \<or> nullable s)"
| "nullable (Star r) = True"

primrec deriv :: "char \<Rightarrow> regex \<Rightarrow> regex" where
  "deriv c Never = Never"
| "deriv c Eps = Never"
| "deriv c (Class P) = (if P c then Eps else Never)"
| "deriv c (Seq r s) =
     (if nullable r then Alt (Seq (deriv c r) s) (deriv c s) else Seq (deriv c r) s)"
| "deriv c (Alt r s) = Alt (deriv c r) (deriv c s)"
| "deriv c (Star r) = Seq (deriv c r) (Star r)"

primrec matches :: "regex \<Rightarrow> string \<Rightarrow> bool" where
  "matches r [] = nullable r"
| "matches r (c # cs) = matches (deriv c r) cs"

text \<open>
  The languages: the meaning of an expression as a set of strings, against which the matcher
  is proved correct (\<open>matches_iff\<close>).
\<close>

definition conc :: "string set \<Rightarrow> string set \<Rightarrow> string set" where
  "conc A B = {u @ v | u v. u \<in> A \<and> v \<in> B}"

inductive_set star :: "string set \<Rightarrow> string set" for A :: "string set" where
  star_nil: "[] \<in> star A"
| star_app: "u \<in> A \<Longrightarrow> v \<in> star A \<Longrightarrow> u @ v \<in> star A"

primrec lang :: "regex \<Rightarrow> string set" where
  "lang Never = {}"
| "lang Eps = {[]}"
| "lang (Class P) = {[c] | c. P c}"
| "lang (Seq r s) = conc (lang r) (lang s)"
| "lang (Alt r s) = lang r \<union> lang s"
| "lang (Star r) = star (lang r)"

section \<open>Errors\<close>

text \<open>
  The source raises \<open>Error\<close> objects that differ by their message, and Mongoose raises a
  validation error and passes on the duplicate key error of the store; the constructors
  carry the names the specification gives them.
\<close>

datatype error = FieldValidationError | InvalidDateFormat | InvalidTimeFormat
  | DanglingReferenceError | DuplicateSlugError

section \<open>The time normalizer\<close>

text \<open>
  \<^verbatim>\<open>
  function normalizeTime(timeStr: string): string {
    const cleaned = timeStr.trim().toUpperCase();
    const time24Regex = /^([0-1]?[0-9]|2[0-3]):([0-5][0-9])$/;
    if (time24Regex.test(cleaned)) {
      return cleaned;
    }
    const time12Regex = /^(\d{1,2}):(\d{2})\s*(AM|PM)$/i;
    const match = cleaned.match(time12Regex);
    if (match) {
      let hours = parseInt(match[1]);
      const minutes = match[2];
      const period = match[3];
      if (period === 'PM' && hours !== 12) {
        hours += 12;
      } else if (period === 'AM' && hours === 12) {
        hours = 0;
      }
      return `${hours.toString().padStart(2, '0')}:${minutes}`;
    }
    throw new Error('Invalid time format. Use HH:MM or HH:MM AM/PM');
  }
  \<close>
\<close>

text \<open>
  The two expressions, group by group: \<open>[0-1]?[0-9]\<close> is an optional \<open>0\<close> or \<open>1\<close> and a
  digit; \<open>\d{1,2}\<close> is a digit and an optional digit, \<open>\d{2}\<close> two digits. Under the flag
  \<open>i\<close> a letter of the expression stands for both of its cases.
\<close>

definition time24Regex :: regex where
  "time24Regex =
     Seq (Alt (Seq (Opt (Class (oneOf ''01''))) (Class (oneOf ''0123456789'')))
              (Seq (Chr CHR ''2'') (Class (oneOf ''0123''))))
      (Seq (Chr CHR '':'')
      (Seq (Class (oneOf ''012345'')) (Class (oneOf ''0123456789''))))"

definition time12Regex :: regex where
  "time12Regex =
     Seq (Seq (Class isDigit) (Opt (Class isDigit)))
      (Seq (Chr CHR '':'')
      (Seq (Seq (Class isDigit) (Class isDigit))
      (Seq (Star (Class isSpace))
           (Alt (Seq (Class (oneOf ''Aa'')) (Class (oneOf ''Mm'')))
                (Seq (Class (oneOf ''Pp'')) (Class (oneOf ''Mm'')))))))"

text \<open>
  \<open>parseInt\<close> on a string that starts with decimal digits reads these digits; on a string
  that starts with another character the model answers \<open>None\<close>, which stands for \<open>NaN\<close> (the
  source gives \<open>parseInt\<close> the first group of \<open>time12Regex\<close> only, one or two digits).
  \<open>numberToString\<close> is \<open>Number.prototype.toString\<close> on these values and \<open>padStart\<close> is
  \<open>String.prototype.padStart\<close> with a filler of one character.
\<close>

definition digitValue :: "char \<Rightarrow> nat" where
  "digitValue c = (case map_of (zip digits [0, 1, 2, 3, 4, 5, 6, 7, 8, 9]) c of
     None \<Rightarrow> 0 | Some n \<Rightarrow> n)"

definition decimalValue :: "string \<Rightarrow> nat" where
  "decimalValue ds = foldl (\<lambda>n c. 10 * n + digitValue c) 0 ds"

definition parseInt :: "string \<Rightarrow> nat option" where
  "parseInt s = (let ds = takeWhile isDigit s in if ds = [] then None else Some (decimalValue ds))"

definition digitChar :: "nat \<Rightarrow> char" where
  "digitChar n = digits ! n"

fun natToString :: "nat \<Rightarrow> string" where
  "natToString n = (if n < 10 then [digitChar n] else natToString (n div 10) @ [digitChar (n mod 10)])"

declare natToString.simps [simp del]

definition numberToString :: "nat option \<Rightarrow> string" where
  "numberToString x = (case x of None \<Rightarrow> ''NaN'' | Some n \<Rightarrow> natToString n)"

definition padStart :: "nat \<Rightarrow> char \<Rightarrow> string \<Rightarrow> string" where
  "padStart n c s = replicate (n - length s) c @ s"

text \<open>
  \<open>RegExp.prototype.test\<close>, and \<open>cleaned.match(time12Regex)\<close> with its three groups: when
  the expression matches, group 1 is what stands before the colon, group 2 the two
  characters after the colon, and group 3 the last two characters of the string.
\<close>

definition test :: "regex \<Rightarrow> string \<Rightarrow> bool" where
  "test r s = matches r s"

definition match12 :: "string \<Rightarrow> (string \<times> string \<times> string) option" where
  "match12 s =
     (if matches time12Regex s
      then Some (takeWhile (\<lambda>c. c \<noteq> CHR '':'') s,
                 take 2 (drop 1 (dropWhile (\<lambda>c. c \<noteq> CHR '':'') s)),
                 drop (length s - 2) s)
      else None)"

definition normalizeTime :: "string \<Rightarrow> error + string" where
  "normalizeTime timeStr =
     (let cleaned = toUpperCase (trim timeStr) in
      if test time24Regex cleaned then Inr cleaned
      else case match12 cleaned of
        Some (h, minutes, period) \<Rightarrow>
          (let hours = parseInt h;
               hours' = (if period = ''PM'' \<and> hours \<noteq> Some 12 then map_option (\<lambda>n. n + 12) hours
                         else if period = ''AM'' \<and> hours = Some 12 then Some 0
                         else hours)
           in Inr (padStart 2 CHR ''0'' (numberToString hours') @ '':'' @ minutes))
      | None \<Rightarrow> Inl InvalidTimeFormat)"

text \<open>
  The patterns of the specification, in its own words: the 24-hour pattern \<open>H[H]:MM\<close> with
  the hour in \<open>[0,23]\<close> and the minute in \<open>[0,59]\<close>; the 12-hour pattern \<open>H[H]:MM\<close> followed
  by \<open>AM\<close> or \<open>PM\<close>; and the conversion of a 12-hour hour. \<open>cleanedTime\<close> is the input trimmed
  and upper-cased.
\<close>

definition hourDigits :: "string \<Rightarrow> bool" where
  "hourDigits h \<longleftrightarrow> (length h = 1 \<or> length h = 2) \<and> list_all isDigit h"

definition minuteDigits :: "string \<Rightarrow> bool" where
  "minuteDigits m \<longleftrightarrow> length m = 2 \<and> list_all isDigit m"

definition pattern24 :: "string \<Rightarrow> bool" where
  "pattern24 c \<longleftrightarrow>
     (\<exists>h m. c = h @ '':'' @ m \<and> hourDigits h \<and> decimalValue h \<le> 23
            \<and> minuteDigits m \<and> decimalValue m \<le> 59)"

definition pattern12 :: "string \<Rightarrow> string \<Rightarrow> string \<Rightarrow> string \<Rightarrow> bool" where
  "pattern12 c h m p \<longleftrightarrow>
     (\<exists>ws. c = h @ '':'' @ m @ ws @ p \<and> hourDigits h \<and> minuteDigits m
           \<and> list_all isSpace ws \<and> (p = ''AM'' \<or> p = ''PM''))"

definition to24 :: "nat \<Rightarrow> string \<Rightarrow> nat" where
  "to24 n p = (if p = ''PM'' \<and> n \<noteq> 12 then n + 12 else if p = ''AM'' \<and> n = 12 then 0 else n)"


definition cleanedTime :: "string \<Rightarrow> string" where
  "cleanedTime timeStr = toUpperCase (trim timeStr)"

section \<open>The date normalizer\<close>

text \<open>
  \<^verbatim>\<open>
  function normalizeDate(dateStr: string): string {
    const date = new Date(dateStr);
    if (isNaN(date.getTime())) {
      throw new Error('Invalid date format');
    }
    return date.toISOString().split('T')[0]; // Returns YYYY-MM-DD
  }
  \<close>
  \<open>new Date(dateStr)\<close> is the date parser of the JavaScript runtime. ECMAScript fixes what it
  answers on the ISO formats only; on any other string the answer is left to the runtime
  and, for a string without a time zone, depends on the time zone of the host. The parser is
  therefore a parameter \<open>dateParse\<close> of the model: \<open>dateParse s\<close> is the time value of
  \<open>new Date(s)\<close> in milliseconds since 1 January 1970 UTC, and \<open>None\<close> when that value is
  \<open>NaN\<close>.

  \<open>toISOString\<close> is modelled after the ECMAScript definitions of \<open>Day\<close>, \<open>DaysInYear\<close>,
  \<open>DayFromYear\<close>, \<open>YearFromTime\<close>, \<open>InLeapYear\<close>, \<open>MonthFromTime\<close> and \<open>DateFromTime\<close>, on
  integers (\<open>div\<close> on \<^typ>\<open>int\<close> rounds down, as \<open>floor\<close> does). The year of a day is the
  largest \<open>y\<close> with \<open>DayFromYear y \<le> d\<close>: the search \<open>yearUp\<close> starts at a year that is not
  above it and walks up.
\<close>

definition msPerDay :: int where
  "msPerDay = 86400000"

definition Day :: "int \<Rightarrow> int" where
  "Day t = t div msPerDay"

definition DaysInYear :: "int \<Rightarrow> int" where
  "DaysInYear y =
     (if y mod 4 \<noteq> 0 then 365 else if y mod 100 \<noteq> 0 then 366
      else if y mod 400 \<noteq> 0 then 365 else 366)"

definition DayFromYear :: "int \<Rightarrow> int" where
  "DayFromYear y =
     365 * (y - 1970) + (y - 1969) div 4 - (y - 1901) div 100 + (y - 1601) div 400"

text \<open>
  The length of a year is the step of \<open>DayFromYear\<close>; this is what makes the search for
  the year end.
\<close>

lemma div_step:
  fixes a k :: int
  assumes "1 < k"
  shows "(a + 1) div k = a div k + (if k dvd (a + 1) then 1 else 0)"
proof -
  have r: "0 \<le> a mod k" "a mod k < k" using assms by simp_all
  have e: "a + 1 = k * (a div k) + (a mod k + 1)" by simp
  show ?thesis
  proof (cases "a mod k + 1 = k")
    case True
    then have "a + 1 = k * (a div k + 1)" using e by (simp add: algebra_simps)
    then have "(a + 1) div k = a div k + 1" "k dvd (a + 1)" using assms by simp_all
    then show ?thesis by simp
  next
    case False
    with r have lt: "a mod k + 1 < k" "0 \<le> a mod k + 1" by simp_all
    from e lt(2) lt(1) have 1: "(a + 1) div k = a div k" by (rule int_div_pos_eq)
    from e lt(2) lt(1) have "(a + 1) mod k = a mod k + 1" by (rule int_mod_pos_eq)
    then have "(a + 1) mod k \<noteq> 0" using r by simp
    then have "\<not> k dvd (a + 1)" by (simp add: dvd_eq_mod_eq_0)
    with 1 show ?thesis by simp
  qed
qed

lemma div_step_shift:
  fixes y k n :: int
  assumes "1 < k" and "k dvd n - 1"
  shows "(y + 1 - n) div k = (y - n) div k + (if k dvd y then 1 else 0)"
proof -
  have e: "y + 1 - n = (y - n) + 1" by simp
  have f: "(y - n) + 1 = y - (n - 1)" by simp
  have "k dvd (y - n) + 1 \<longleftrightarrow> k dvd y - (n - 1)" by (simp only: f)
  also have "\<dots> \<longleftrightarrow> k dvd y" using assms(2) by (rule dvd_diff_left_iff)
  finally have d: "k dvd (y - n) + 1 \<longleftrightarrow> k dvd y" .
  show ?thesis unfolding e div_step [OF assms(1)] d ..
qed

lemma DayFromYear_Suc: "DayFromYear (y + 1) = DayFromYear y + DaysInYear y"
proof -
  have 4: "(y + 1 - 1969) div 4 = (y - 1969) div 4 + (if 4 dvd y then 1 else 0)"
    by (rule div_step_shift) simp_all
  have 100: "(y + 1 - 1901) div 100 = (y - 1901) div 100 + (if 100 dvd y then 1 else 0)"
    by (rule div_step_shift) simp_all
  have 400: "(y + 1 - 1601) div 400 = (y - 1601) div 400 + (if 400 dvd y then 1 else 0)"
    by (rule div_step_shift) simp_all
  have a: "100 dvd y" if "400 dvd y"
    using that by (rule dvd_trans [rotated]) simp
  have b: "4 dvd y" if "100 dvd y"
    using that by (rule dvd_trans [rotated]) simp
  have m: "y mod 4 = 0 \<longleftrightarrow> 4 dvd y" "y mod 100 = 0 \<longleftrightarrow> 100 dvd y" "y mod 400 = 0 \<longleftrightarrow> 400 dvd y"
    by (simp_all add: dvd_eq_mod_eq_0)
  show ?thesis
    unfolding DayFromYear_def DaysInYear_def 4 100 400 m
    using a b by auto
qed

lemma DaysInYear_range: "DaysInYear y = 365 \<or> DaysInYear y = 366"
  by (simp add: DaysInYear_def)

lemma DayFromYear_less: "DayFromYear y < DayFromYear (y + 1)"
  using DaysInYear_range [of y] by (auto simp add: DayFromYear_Suc)

function yearUp :: "int \<Rightarrow> int \<Rightarrow> int" where
  "yearUp d y = (if DayFromYear (y + 1) \<le> d then yearUp d (y + 1) else y)"
  by pat_completeness auto
termination
proof (relation "measure (\<lambda>(d, y). nat (d - DayFromYear (y + 1) + 1))")
  show "wf (measure (\<lambda>(d, y). nat (d - DayFromYear (y + 1) + 1)))" by simp
next
  fix d y :: int
  assume "DayFromYear (y + 1) \<le> d"
  moreover have "DayFromYear (y + 1) < DayFromYear (y + 1 + 1)" by (rule DayFromYear_less)
  ultimately show "((d, y + 1), (d, y)) \<in> measure (\<lambda>(d, y). nat (d - DayFromYear (y + 1) + 1))"
    by simp
qed

declare yearUp.simps [simp del]

definition YearFromDay :: "int \<Rightarrow> int" where
  "YearFromDay d = yearUp d (1970 + (if 0 \<le> d then d div 366 else d div 365))"

definition InLeapYear :: "int \<Rightarrow> int" where
  "InLeapYear y = (if DaysInYear y = 366 then 1 else 0)"

definition MonthFromDay :: "int \<Rightarrow> int \<Rightarrow> int" where
  "MonthFromDay leap dwy =
     (if dwy < 31 then 0
      else if dwy < 59 + leap then 1
      else if dwy < 90 + leap then 2
      else if dwy < 120 + leap then 3
      else if dwy < 151 + leap then 4
      else if dwy < 181 + leap then 5
      else if dwy < 212 + leap then 6
      else if dwy < 243 + leap then 7
      else if dwy < 273 + leap then 8
      else if dwy < 304 + leap then 9
      else if dwy < 334 + leap then 10
      else 11)"

definition DateFromDay :: "int \<Rightarrow> int \<Rightarrow> int" where
  "DateFromDay leap dwy =
     (let m = MonthFromDay leap dwy in
      if m = 0 then dwy + 1
      else if m = 1 then dwy - 30
      else if m = 2 then dwy - 58 - leap
      else if m = 3 then dwy - 89 - leap
      else if m = 4 then dwy - 119 - leap
      else if m = 5 then dwy - 150 - leap
      else if m = 6 then dwy - 180 - leap
      else if m = 7 then dwy - 211 - leap
      else if m = 8 then dwy - 242 - leap
      else if m = 9 then dwy - 272 - leap
      else if m = 10 then dwy - 303 - leap
      else dwy - 333 - leap)"

definition pad :: "nat \<Rightarrow> int \<Rightarrow> string" where
  "pad n x = padStart n CHR ''0'' (natToString (nat x))"

definition isoYear :: "int \<Rightarrow> string" where
  "isoYear y =
     (if 0 \<le> y \<and> y \<le> 9999 then pad 4 y
      else if y < 0 then ''-'' @ pad 6 (- y)
      else ''+'' @ pad 6 y)"

definition isoDate :: "int \<Rightarrow> string" where
  "isoDate d =
     (let y = YearFromDay d; dwy = d - DayFromYear y; leap = InLeapYear y
      in isoYear y @ ''-'' @ pad 2 (MonthFromDay leap dwy + 1) @ ''-'' @ pad 2 (DateFromDay leap dwy))"

definition isoTime :: "int \<Rightarrow> string" where
  "isoTime t =
     pad 2 ((t div 3600000) mod 24) @ '':'' @ pad 2 ((t div 60000) mod 60) @ '':''
       @ pad 2 ((t div 1000) mod 60) @ ''.'' @ pad 3 (t mod 1000)"

definition toISOString :: "int \<Rightarrow> string" where
  "toISOString t = isoDate (Day t) @ ''T'' @ isoTime t @ ''Z''"

definition splitFirst :: "char \<Rightarrow> string \<Rightarrow> string" where
  "splitFirst sep s = takeWhile (\<lambda>c. c \<noteq> sep) s"

definition normalizeDate :: "(string \<Rightarrow> int option) \<Rightarrow> string \<Rightarrow> error + string" where
  "normalizeDate dateParse dateStr =
     (case dateParse dateStr of
        None \<Rightarrow> Inl InvalidDateFormat
      | Some t \<Rightarrow> Inr (splitFirst CHR ''T'' (toISOString t)))"






text \<open>
  Two runtimes, as far as the examples need them. On a host whose time zone is UTC,
  \<open>new Date("June 13, 2025")\<close> and \<open>new Date("2025-06-13")\<close> are 13 June 2025, 00:00 UTC. A
  host whose time zone is UTC+05:45 reads \<open>"June 13, 2025"\<close> as midnight of its own time,
  which is 12 June 2025, 18:15 UTC. Both answer \<open>NaN\<close> on \<open>"2025-13-40"\<close>; what they answer on
  the strings that the examples do not use is not modelled and is given as \<open>None\<close>. The
  string \<open>"+010000-01-01"\<close> is a date of the ISO format with an expanded year, 1 January
  of the year 10000, 00:00 UTC on every host.
\<close>

definition hostAtUTC :: "string \<Rightarrow> int option" where
  "hostAtUTC s =
     (if s = ''June 13, 2025'' \<or> s = ''2025-06-13'' then Some 1749772800000
      else if s = ''+010000-01-01'' then Some 253402300800000
      else None)"


section \<open>Mongoose documents and the store\<close>

text \<open>
  A Mongoose document carries its identifier, the values of its paths, the flag \<open>isNew\<close>
  and the list of the paths modified since it was loaded; \<open>isModified\<close> reads that list.
  The store holds the two collections as lists of identifier and record. \<open>eventLookups\<close>
  is not part of the data: it records every \<open>Event.findById\<close> that a hook performs, so that
  the absence of a lookup can be stated.

  \<open>save\<close> first validates the document against the schema (Mongoose registers this
  validation before the hooks of the schema), then runs the \<open>pre('save')\<close> hook, and writes
  only when both succeed; an error of either step is the result of \<open>save\<close>. The time stamps
  \<open>createdAt\<close> and \<open>updatedAt\<close> are left out.
\<close>

type_synonym objectId = nat

record ('a, 'p) document =
  oid :: objectId
  content :: 'a
  isNew :: bool
  modifiedPaths :: "'p list"

definition isModified :: "'p \<Rightarrow> ('a, 'p) document \<Rightarrow> bool" where
  "isModified p d \<longleftrightarrow> p \<in> set (modifiedPaths d)"

definition markModified :: "'p \<Rightarrow> ('a, 'p) document \<Rightarrow> ('a, 'p) document" where
  "markModified p d = (if isModified p d then d else d\<lparr>modifiedPaths := modifiedPaths d @ [p]\<rparr>)"

text \<open>
  The paths of \<open>IEvent\<close>. A string path that the caller leaves out is the empty string,
  which \<open>required\<close> rejects as it rejects a missing value; an array path that is left out
  is the empty array. (\<open>image\<close> is named \<open>image_path\<close> here.)
\<close>

record event =
  title :: string
  slug :: string
  description :: string
  overview :: string
  image_path :: string
  venue :: string
  location :: string
  date :: string
  time :: string
  mode :: string
  audience :: string
  agenda :: "string list"
  organizer :: string
  tags :: "string list"

datatype eventPath = Title | Slug | Description | Overview | Image | Venue | Location
  | Date | Time | Mode | Audience | Agenda | Organizer | Tags

record booking =
  eventId :: "objectId option"
  email :: "string option"

datatype bookingPath = EventId | Email

record store =
  events :: "(objectId \<times> event) list"
  bookings :: "(objectId \<times> booking) list"
  eventLookups :: "objectId option list"

fun upsert :: "objectId \<Rightarrow> 'a \<Rightarrow> (objectId \<times> 'a) list \<Rightarrow> (objectId \<times> 'a) list" where
  "upsert k v [] = [(k, v)]"
| "upsert k v ((k', v') # r) = (if k = k' then (k, v) # r else (k', v') # upsert k v r)"

definition findById :: "(objectId \<times> 'a) list \<Rightarrow> objectId option \<Rightarrow> 'a option" where
  "findById coll i = (case i of None \<Rightarrow> None | Some k \<Rightarrow> map_of coll k)"

section \<open>The event model\<close>

text \<open>
  The options \<open>trim\<close> and \<open>lowercase\<close> of a path are setters: they are applied whenever a
  value is assigned to the path. Where a path has both, their order does not matter
  (\<open>trim_toLowerCase\<close>). \<open>new Event(input)\<close> assigns every path of the input; the paths of
  a new document count as modified. An assignment to a path of a loaded document marks the
  path as modified when the value changes.
\<close>

text \<open>
  \<^verbatim>\<open>
  title:       { type: String, required, trim: true, minlength: 3, maxlength: 200 },
  slug:        { type: String, unique: true, lowercase: true, trim: true },
  description: { type: String, required, trim: true, minlength: 10 },
  overview:    { type: String, required, trim: true },
  image:       { type: String, required },
  venue:       { type: String, required, trim: true },
  location:    { type: String, required, trim: true },
  date:        { type: String, required },
  time:        { type: String, required },
  mode:        { type: String, required, enum: ['online', 'offline', 'hybrid'],
                 lowercase: true },
  audience:    { type: String, required, trim: true },
  agenda:      { type: [String], required, validate: (arr) => arr.length > 0 },
  organizer:   { type: String, required, trim: true },
  tags:        { type: [String], required, validate: (arr) => arr.length > 0 },
  \<close>
  (the schema of the source, without its messages).
\<close>

definition eventSetters :: "event \<Rightarrow> event" where
  "eventSetters e =
     e\<lparr>title := trim (title e), slug := toLowerCase (trim (slug e)),
       description := trim (description e), overview := trim (overview e),
       venue := trim (venue e), location := trim (location e), mode := toLowerCase (mode e),
       audience := trim (audience e), organizer := trim (organizer e)\<rparr>"

definition allEventPaths :: "eventPath list" where
  "allEventPaths = [Title, Slug, Description, Overview, Image, Venue, Location, Date, Time,
     Mode, Audience, Agenda, Organizer, Tags]"

definition newEvent :: "objectId \<Rightarrow> event \<Rightarrow> (event, eventPath) document" where
  "newEvent i input =
     \<lparr>oid = i, content = eventSetters input, isNew = True, modifiedPaths = allEventPaths\<rparr>"

definition loadEvent :: "objectId \<Rightarrow> event \<Rightarrow> (event, eventPath) document" where
  "loadEvent i e = \<lparr>oid = i, content = e, isNew = False, modifiedPaths = []\<rparr>"

definition assignDescription ::
  "string \<Rightarrow> (event, eventPath) document \<Rightarrow> (event, eventPath) document" where
  "assignDescription v d =
     (let v' = trim v in
      if v' = description (content d) then d
      else markModified Description (d\<lparr>content := (content d)\<lparr>description := v'\<rparr>\<rparr>))"

definition assignSlug ::
  "string \<Rightarrow> (event, eventPath) document \<Rightarrow> (event, eventPath) document" where
  "assignSlug v d =
     (let v' = toLowerCase (trim v) in
      if v' = slug (content d) then d
      else markModified Slug (d\<lparr>content := (content d)\<lparr>slug := v'\<rparr>\<rparr>))"

definition assignDate ::
  "string \<Rightarrow> (event, eventPath) document \<Rightarrow> (event, eventPath) document" where
  "assignDate v d =
     (if v = date (content d) then d
      else markModified Date (d\<lparr>content := (content d)\<lparr>date := v\<rparr>\<rparr>))"

definition assignTime ::
  "string \<Rightarrow> (event, eventPath) document \<Rightarrow> (event, eventPath) document" where
  "assignTime v d =
     (if v = time (content d) then d
      else markModified Time (d\<lparr>content := (content d)\<lparr>time := v\<rparr>\<rparr>))"

text \<open>
  The validators of the schema: \<open>required\<close>, \<open>minlength\<close>, \<open>maxlength\<close>, \<open>enum\<close> and the two
  array validators \<open>arr.length > 0\<close>.
\<close>

definition required :: "string \<Rightarrow> bool" where
  "required v \<longleftrightarrow> v \<noteq> []"

definition validateEvent :: "event \<Rightarrow> bool" where
  "validateEvent e \<longleftrightarrow>
     required (title e) \<and> 3 \<le> length (title e) \<and> length (title e) \<le> 200
     \<and> required (description e) \<and> 10 \<le> length (description e)
     \<and> required (overview e)
     \<and> required (image_path e)
     \<and> required (venue e)
     \<and> required (location e)
     \<and> required (date e)
     \<and> required (time e)
     \<and> required (mode e) \<and> mode e \<in> set [''online'', ''offline'', ''hybrid'']
     \<and> required (audience e)
     \<and> 0 < length (agenda e)
     \<and> required (organizer e)
     \<and> 0 < length (tags e)"

text \<open>
  \<^verbatim>\<open>
  eventSchema.pre('save', function (next) {
    if (this.isModified('title')) {
      this.slug = generateSlug(this.title);
    }
    if (this.isModified('date')) {
      try {
        this.date = normalizeDate(this.date);
      } catch (error) {
        return next(error as Error);
      }
    }
    if (this.isModified('time')) {
      try {
        this.time = normalizeTime(this.time);
      } catch (error) {
        return next(error as Error);
      }
    }
    next();
  });
  \<close>
\<close>

definition eventPreSave ::
  "(string \<Rightarrow> int option) \<Rightarrow> (event, eventPath) document \<Rightarrow> error + (event, eventPath) document"
where
  "eventPreSave dateParse this =
     (let d1 = (if isModified Title this then assignSlug (generateSlug (title (content this))) this
                else this)
      in case (if isModified Date d1
               then (case normalizeDate dateParse (date (content d1)) of
                       Inl e \<Rightarrow> Inl e
                     | Inr v \<Rightarrow> Inr (assignDate v d1))
               else Inr d1) of
           Inl e \<Rightarrow> Inl e
         | Inr d2 \<Rightarrow>
             (if isModified Time d2
              then (case normalizeTime (time (content d2)) of
                      Inl e \<Rightarrow> Inl e
                    | Inr v \<Rightarrow> Inr (assignTime v d2))
              else Inr d2))"

text \<open>
  \<open>eventSchema.index({ slug: 1 }, { unique: true })\<close>: the store refuses an event whose
  slug another event has.
\<close>

definition slugTaken :: "(objectId \<times> event) list \<Rightarrow> objectId \<Rightarrow> string \<Rightarrow> bool" where
  "slugTaken evs i s \<longleftrightarrow> list_ex (\<lambda>(k, e). k \<noteq> i \<and> slug e = s) evs"

definition saveEvent ::
  "(string \<Rightarrow> int option) \<Rightarrow> store \<Rightarrow> (event, eventPath) document
     \<Rightarrow> store \<times> (error + (event, eventPath) document)" where
  "saveEvent dateParse st d =
     (if \<not> validateEvent (content d) then (st, Inl FieldValidationError)
      else case eventPreSave dateParse d of
        Inl e \<Rightarrow> (st, Inl e)
      | Inr d' \<Rightarrow>
          if slugTaken (events st) (oid d') (slug (content d')) then (st, Inl DuplicateSlugError)
          else (st\<lparr>events := upsert (oid d') (content d') (events st)\<rparr>,
                Inr (d'\<lparr>isNew := False, modifiedPaths := []\<rparr>)))"

text \<open>
  The first step of the hook of the event schema, on its own, and the canonical form of a
  stored time, \<open>HH:MM\<close> on the 24-hour clock.
\<close>

definition slugStep :: "(event, eventPath) document \<Rightarrow> (event, eventPath) document" where
  "slugStep d = (if isModified Title d then assignSlug (generateSlug (title (content d))) d else d)"

definition canonicalTime :: "string \<Rightarrow> bool" where
  "canonicalTime s \<longleftrightarrow> pattern24 s \<and> length s = 5"

section \<open>The booking model\<close>

text \<open>
  \<^verbatim>\<open>
  const emailRegex = /^[^\s@]+@[^\s@]+\.[^\s@]+$/;

  bookingSchema.pre('save', async function () {
    if (this.isNew || this.isModified('eventId')) {
      const eventExists = await Event.findById(this.eventId);
      if (!eventExists) {
        throw new Error(`Event with ID ${this.eventId} does not exist`);
      }
    }
  });
  \<close>
  Both paths of a booking can be missing, which is \<open>None\<close>. The schema, without its
  messages:
  \<^verbatim>\<open>
  eventId: { type: Schema.Types.ObjectId, ref: 'Event', required },
  email:   { type: String, required, trim: true, lowercase: true,
             validate: (email) => emailRegex.test(email) },
  \<close>
\<close>

definition emailRegex :: regex where
  "emailRegex =
     Seq (Plus (Class (\<lambda>c. \<not> (isSpace c \<or> c = CHR ''@''))))
      (Seq (Chr CHR ''@'')
      (Seq (Plus (Class (\<lambda>c. \<not> (isSpace c \<or> c = CHR ''@''))))
      (Seq (Chr CHR ''.'')
           (Plus (Class (\<lambda>c. \<not> (isSpace c \<or> c = CHR ''@'')))))))"

definition newBooking ::
  "objectId \<Rightarrow> objectId option \<Rightarrow> string option \<Rightarrow> (booking, bookingPath) document" where
  "newBooking i ev em =
     \<lparr>oid = i, content = \<lparr>eventId = ev, email = map_option (\<lambda>v. trim (toLowerCase v)) em\<rparr>,
      isNew = True, modifiedPaths = [EventId, Email]\<rparr>"

definition validateBooking :: "booking \<Rightarrow> bool" where
  "validateBooking b \<longleftrightarrow>
     eventId b \<noteq> None
     \<and> (case email b of None \<Rightarrow> False | Some e \<Rightarrow> required e \<and> test emailRegex e)"

definition bookingPreSave ::
  "store \<Rightarrow> (booking, bookingPath) document \<Rightarrow> store \<times> (error + unit)" where
  "bookingPreSave st this =
     (if isNew this \<or> isModified EventId this
      then (let st' = st\<lparr>eventLookups := eventLookups st @ [eventId (content this)]\<rparr>;
                eventExists = findById (events st) (eventId (content this))
            in if eventExists = None then (st', Inl DanglingReferenceError) else (st', Inr ()))
      else (st, Inr ()))"

definition saveBooking ::
  "store \<Rightarrow> (booking, bookingPath) document
     \<Rightarrow> store \<times> (error + (booking, bookingPath) document)" where
  "saveBooking st d =
     (if \<not> validateBooking (content d) then (st, Inl FieldValidationError)
      else case bookingPreSave st d of
        (st', Inl e) \<Rightarrow> (st', Inl e)
      | (st', Inr u) \<Rightarrow>
          (st'\<lparr>bookings := upsert (oid d) (content d) (bookings st')\<rparr>,
           Inr (d\<lparr>isNew := False, modifiedPaths := []\<rparr>)))"



section \<open>Sample data\<close>

text \<open>
  The values at which the theorems below are instantiated.
\<close>

definition sampleEvent :: event where
  "sampleEvent =
     \<lparr>title = ''React Summit 2025'', slug = '''', description = ''The biggest React conference'',
      overview = ''Talks and workshops'', image_path = ''/images/event1.png'',
      venue = ''RAI'', location = ''Amsterdam, Netherlands'', date = ''June 13, 2025'',
      time = ''9:00'', mode = ''offline'', audience = ''Developers'',
      agenda = [''Keynote''], organizer = ''GitNation'', tags = [''react'']\<rparr>"

definition emptyStore :: store where
  "emptyStore = \<lparr>events = [], bookings = [], eventLookups = []\<rparr>"

definition storedEvent :: event where
  "storedEvent = sampleEvent\<lparr>slug := ''react-summit-2025'', date := ''2025-06-13''\<rparr>"

definition storeWithEvent :: store where
  "storeWithEvent = \<lparr>events = [(1, storedEvent)], bookings = [], eventLookups = []\<rparr>"

definition sampleBooking :: "(booking, bookingPath) document" where
  "sampleBooking = newBooking 7 (Some 1) (Some ''  Ann@Example.org '')"

definition loadedBooking :: "(booking, bookingPath) document" where
  "loadedBooking =
     \<lparr>oid = 7, content = \<lparr>eventId = Some 1, email = Some ''ann@example.org''\<rparr>,
      isNew = False, modifiedPaths = [Email]\<rparr>"

definition editedEvent :: "(event, eventPath) document" where
  "editedEvent = assignDescription ''  A new description of the summit '' (loadEvent 1 storedEvent)"

section \<open>Properties of the slug normalizer\<close>

lemmas char_defs = upperLetters_def lowerLetters_def digits_def isSpace_def isDigit_def
  isWord_def isUpper_def isLower_def isHyphen_def lowerChar_def upperChar_def isSlugChar_def

lemma lowerChar_not_upper: "\<not> isUpper (lowerChar c)"
  by (simp add: char_defs)

lemma isWord_slug: "isWord c \<Longrightarrow> \<not> isUpper c \<Longrightarrow> isSlugChar c"
  by (auto simp add: char_defs)

lemma slugChar_facts: "isSlugChar c \<Longrightarrow> isWord c \<and> \<not> isUpper c \<and> \<not> isSpace c \<and> \<not> isHyphen c"
  by (auto simp add: char_defs)

lemma hyphen_facts: "isHyphen c \<Longrightarrow> \<not> isUpper c \<and> \<not> isSpace c \<and> \<not> isWord c"
  by (auto simp add: char_defs)

lemma lowerChar_id: "\<not> isUpper c \<Longrightarrow> lowerChar c = c"
  by (auto simp add: char_defs)

lemma set_toLowerCase: "c \<in> set (toLowerCase s) \<Longrightarrow> \<not> isUpper c"
  by (auto simp add: toLowerCase_def lowerChar_not_upper)

lemma set_trim: "set (trim s) \<subseteq> set s"
proof -
  have "set (trimEnd t) \<subseteq> set t" for t
    using set_dropWhileD [of _ isSpace "rev t"] by (auto simp add: trimEnd_def)
  moreover have "set (trimStart s) \<subseteq> set s"
    using set_dropWhileD [of _ isSpace s] by (auto simp add: trimStart_def)
  ultimately show ?thesis unfolding trim_def by blast
qed

lemma set_removeSpecial:
  "set (removeSpecial s) = {c \<in> set s. isWord c \<or> isSpace c \<or> isHyphen c}"
  by (simp add: removeSpecial_def)

lemma set_spacesToHyphen:
  "c \<in> set (spacesToHyphen s) \<Longrightarrow> (c \<in> set s \<and> \<not> isSpace c) \<or> isHyphen c"
proof (induction s rule: spacesToHyphen.induct)
  case 1
  then show ?case by simp
next
  case (2 d ds)
  then show ?case
    by (auto simp add: isHyphen_def split: if_splits dest: set_dropWhileD)
qed

lemma set_collapseHyphens: "set (collapseHyphens s) \<subseteq> set s"
proof (induction s rule: collapseHyphens.induct)
  case (3 c d cs)
  then show ?case
    by (auto simp add: isHyphen_def split: if_splits dest: set_dropWhileD)
qed simp_all

lemma set_stripHyphens: "set (stripHyphens s) \<subseteq> set s"
  using set_dropWhileD [of _ isHyphen "rev (dropWhile isHyphen s)"] set_dropWhileD [of _ isHyphen s]
  by (auto simp add: stripHyphens_def)

lemma generateSlug_chars:
  assumes "c \<in> set (generateSlug s)"
  shows "isSlugChar c \<or> isHyphen c"
proof -
  let ?a = "toLowerCase s"
  let ?b = "trim ?a"
  let ?c = "removeSpecial ?b"
  let ?d = "spacesToHyphen ?c"
  have "c \<in> set ?d"
    using assms set_stripHyphens set_collapseHyphens unfolding generateSlug_def by blast
  then have "(c \<in> set ?c \<and> \<not> isSpace c) \<or> isHyphen c"
    by (rule set_spacesToHyphen)
  moreover
  { assume h: "c \<in> set ?c" "\<not> isSpace c" "\<not> isHyphen c"
    then have "isWord c" "c \<in> set ?b" by (auto simp add: set_removeSpecial)
    then have "c \<in> set ?a" using set_trim by blast
    then have "\<not> isUpper c" by (rule set_toLowerCase)
    with \<open>isWord c\<close> have "isSlugChar c" by (rule isWord_slug) }
  ultimately show ?thesis by blast
qed

lemma collapseHyphens_hd: "collapseHyphens (x # xs) = x # tl (collapseHyphens (x # xs))"
  by (cases xs) (auto simp add: isHyphen_def)

lemma singleHyphens_Cons:
  "singleHyphens (x # t) \<longleftrightarrow> (t = [] \<or> \<not> (isHyphen x \<and> isHyphen (hd t))) \<and> singleHyphens t"
  by (cases t) auto

lemma dropWhile_hd_not: "dropWhile P t = [] \<or> \<not> P (hd (dropWhile P t))"
  using hd_dropWhile [of P t] by blast

lemma singleHyphens_collapseHyphens: "singleHyphens (collapseHyphens s)"
proof (induction s rule: collapseHyphens.induct)
  case (3 c d cs)
  show ?case
  proof (cases "isHyphen c \<and> isHyphen d")
    case True
    define r where "r = dropWhile isHyphen cs"
    have ih: "singleHyphens (collapseHyphens r)" using 3(1) True by (simp add: r_def)
    have "collapseHyphens r = [] \<or> \<not> isHyphen (hd (collapseHyphens r))"
    proof (cases r)
      case Nil
      then show ?thesis by simp
    next
      case (Cons y ys)
      then have "\<not> isHyphen y" using dropWhile_hd_not [of isHyphen cs] by (simp add: r_def)
      moreover have "hd (collapseHyphens r) = y"
        using collapseHyphens_hd [of y ys] Cons by (metis list.sel(1))
      ultimately show ?thesis by simp
    qed
    with ih True show ?thesis by (simp add: singleHyphens_Cons r_def)
  next
    case False
    then have ih: "singleHyphens (collapseHyphens (d # cs))" using 3(2) by simp
    have "hd (collapseHyphens (d # cs)) = d"
      using collapseHyphens_hd [of d cs] by (metis list.sel(1))
    with ih False show ?thesis by (auto simp add: singleHyphens_Cons)
  qed
qed simp_all

lemma singleHyphens_iff:
  "singleHyphens t \<longleftrightarrow> \<not> (\<exists>xs ys. t = xs @ ''--'' @ ys)"
proof (induction t rule: singleHyphens.induct)
  case (1 a b cs)
  show ?case
  proof
    assume l: "singleHyphens (a # b # cs)"
    show "\<not> (\<exists>xs ys. a # b # cs = xs @ ''--'' @ ys)"
    proof
      assume "\<exists>xs ys. a # b # cs = xs @ ''--'' @ ys"
      then obtain xs ys where e: "a # b # cs = xs @ ''--'' @ ys" by blast
      show False
      proof (cases xs)
        case Nil
        with e l show ?thesis by (simp add: isHyphen_def)
      next
        case (Cons x xs')
        with e have "b # cs = xs' @ ''--'' @ ys" by simp
        then have "\<exists>xs ys. b # cs = xs @ ''--'' @ ys" by blast
        moreover from l have "singleHyphens (b # cs)" by simp
        ultimately show ?thesis using 1 by blast
      qed
    qed
  next
    assume r: "\<not> (\<exists>xs ys. a # b # cs = xs @ ''--'' @ ys)"
    have "\<not> (isHyphen a \<and> isHyphen b)"
    proof
      assume "isHyphen a \<and> isHyphen b"
      then have "a # b # cs = [] @ ''--'' @ cs" by (simp add: isHyphen_def)
      with r show False by blast
    qed
    moreover have "\<not> (\<exists>xs ys. b # cs = xs @ ''--'' @ ys)"
    proof
      assume "\<exists>xs ys. b # cs = xs @ ''--'' @ ys"
      then obtain xs ys where "b # cs = xs @ ''--'' @ ys" by blast
      then have "a # b # cs = (a # xs) @ ''--'' @ ys" by simp
      with r show False by blast
    qed
    ultimately show "singleHyphens (a # b # cs)" using 1 by simp
  qed
qed (auto simp add: append_eq_Cons_conv)

lemma stripHyphens_infix: "\<exists>p q. s = p @ stripHyphens s @ q"
proof -
  obtain p where p: "s = p @ dropWhile isHyphen s"
    using takeWhile_dropWhile_id [of isHyphen s] by metis
  let ?t = "dropWhile isHyphen s"
  have "rev ?t = takeWhile isHyphen (rev ?t) @ dropWhile isHyphen (rev ?t)" by simp
  then have "?t = rev (dropWhile isHyphen (rev ?t)) @ rev (takeWhile isHyphen (rev ?t))"
    by (metis rev_append rev_rev_ident)
  then have "?t = stripHyphens s @ rev (takeWhile isHyphen (rev ?t))"
    by (simp add: stripHyphens_def)
  with p show ?thesis by metis
qed

lemma singleHyphens_stripHyphens:
  assumes "singleHyphens s" shows "singleHyphens (stripHyphens s)"
proof -
  obtain p q where e: "s = p @ stripHyphens s @ q" using stripHyphens_infix by blast
  show ?thesis
  proof (rule ccontr)
    assume "\<not> singleHyphens (stripHyphens s)"
    then obtain xs ys where "stripHyphens s = xs @ ''--'' @ ys"
      by (auto simp add: singleHyphens_iff)
    with e have "s = (p @ xs) @ ''--'' @ (ys @ q)" by simp
    with assms show False unfolding singleHyphens_iff by blast
  qed
qed

lemma stripHyphens_ends:
  "stripHyphens s = [] \<or> (\<not> isHyphen (hd (stripHyphens s)) \<and> \<not> isHyphen (last (stripHyphens s)))"
proof (cases "stripHyphens s = []")
  case True
  then show ?thesis by simp
next
  case False
  define t where "t = dropWhile isHyphen s"
  define u where "u = dropWhile isHyphen (rev t)"
  have su: "stripHyphens s = rev u" by (simp add: stripHyphens_def t_def u_def)
  with False have u: "u \<noteq> []" by simp
  then have "\<not> isHyphen (hd u)" using dropWhile_hd_not [of isHyphen "rev t"] unfolding u_def by blast
  then have l: "\<not> isHyphen (last (stripHyphens s))"
    using u by (simp add: su last_rev)
  have t: "t \<noteq> []" using u by (cases t) (simp_all add: u_def)
  then have ht: "\<not> isHyphen (hd t)" using dropWhile_hd_not [of isHyphen s] unfolding t_def by blast
  have "rev t = takeWhile isHyphen (rev t) @ u" by (simp add: u_def)
  then have "t = rev u @ rev (takeWhile isHyphen (rev t))"
    by (metis rev_append rev_rev_ident)
  with False su have "hd (stripHyphens s) = hd t" by (metis hd_append2)
  with ht l show ?thesis by simp
qed

lemma slugForm_generateSlug: "slugForm (generateSlug s)"
proof -
  have "list_all (\<lambda>c. isSlugChar c \<or> isHyphen c) (generateSlug s)"
    using generateSlug_chars by (auto simp add: list_all_iff)
  moreover have "singleHyphens (generateSlug s)"
    unfolding generateSlug_def
    by (rule singleHyphens_stripHyphens) (rule singleHyphens_collapseHyphens)
  moreover have "generateSlug s = [] \<or>
      (\<not> isHyphen (hd (generateSlug s)) \<and> \<not> isHyphen (last (generateSlug s)))"
    unfolding generateSlug_def by (rule stripHyphens_ends)
  ultimately show ?thesis by (simp add: slugForm_def)
qed

lemma dropWhile_none: "\<forall>c\<in>set t. \<not> P c \<Longrightarrow> dropWhile P t = t"
  by (cases t) simp_all

lemma spacesToHyphen_id: "\<forall>c\<in>set t. \<not> isSpace c \<Longrightarrow> spacesToHyphen t = t"
  by (induction t) simp_all

lemma collapseHyphens_id: "singleHyphens t \<Longrightarrow> collapseHyphens t = t"
proof (induction t rule: collapseHyphens.induct)
  case (3 c d cs)
  from 3(3) have n: "\<not> (isHyphen c \<and> isHyphen d)" and s: "singleHyphens (d # cs)" by simp_all
  from 3(2) n s have "collapseHyphens (d # cs) = d # cs" by blast
  with n show ?case by auto
qed simp_all

lemma stripHyphens_id:
  assumes "t = [] \<or> (\<not> isHyphen (hd t) \<and> \<not> isHyphen (last t))"
  shows "stripHyphens t = t"
proof (cases t)
  case Nil
  then show ?thesis by (simp add: stripHyphens_def)
next
  case (Cons x xs)
  with assms have h: "\<not> isHyphen x" and l: "\<not> isHyphen (last t)" by simp_all
  from h Cons have "dropWhile isHyphen t = t" by simp
  moreover have "dropWhile isHyphen (rev t) = rev t"
  proof (cases "rev t")
    case Nil
    then show ?thesis by simp
  next
    case (Cons y ys)
    then have "y = last t" by (metis hd_rev list.sel(1))
    with l have "dropWhile isHyphen (y # ys) = y # ys" by simp
    then show ?thesis by (simp only: Cons)
  qed
  ultimately show ?thesis by (simp add: stripHyphens_def)
qed

lemma generateSlug_fixed:
  assumes "slugForm t" shows "generateSlug t = t"
proof -
  from assms have chars: "\<forall>c\<in>set t. isSlugChar c \<or> isHyphen c"
    and single: "singleHyphens t"
    and ends: "t = [] \<or> (\<not> isHyphen (hd t) \<and> \<not> isHyphen (last t))"
    by (simp_all add: slugForm_def list_all_iff)
  have noUpper: "\<forall>c\<in>set t. \<not> isUpper c"
    using chars slugChar_facts hyphen_facts by blast
  have noSpace: "\<forall>c\<in>set t. \<not> isSpace c"
    using chars slugChar_facts hyphen_facts by blast
  have keep: "\<forall>c\<in>set t. isWord c \<or> isSpace c \<or> isHyphen c"
    using chars slugChar_facts by blast
  have 1: "toLowerCase t = t"
    unfolding toLowerCase_def using noUpper by (simp add: map_idI lowerChar_id)
  have "\<forall>c\<in>set (rev t). \<not> isSpace c" using noSpace by simp
  then have "dropWhile isSpace (rev t) = rev t" by (rule dropWhile_none)
  then have 2: "trim t = t"
    using dropWhile_none [OF noSpace] by (simp add: trim_def trimStart_def trimEnd_def)
  have 3: "removeSpecial t = t"
    unfolding removeSpecial_def using keep by (simp add: filter_id_conv)
  have 4: "spacesToHyphen t = t" using noSpace by (rule spacesToHyphen_id)
  have 5: "collapseHyphens t = t" using single by (rule collapseHyphens_id)
  have 6: "stripHyphens t = t" using ends by (rule stripHyphens_id)
  show ?thesis by (simp add: generateSlug_def 1 2 3 4 5 6)
qed



text \<open>
  C10: \<open>generateSlug\<close> is idempotent: a slug is its own slug.
\<close>

theorem generateSlug_idempotent:
  "generateSlug (generateSlug s) = generateSlug s"
  by (rule generateSlug_fixed) (rule slugForm_generateSlug)

section \<open>The matcher is correct\<close>

lemma conc_Nil_iff: "[] \<in> conc A B \<longleftrightarrow> [] \<in> A \<and> [] \<in> B"
  by (auto simp add: conc_def)

lemma conc_Cons_iff:
  "c # w \<in> conc A B \<longleftrightarrow>
     ([] \<in> A \<and> c # w \<in> B) \<or> (\<exists>u v. w = u @ v \<and> c # u \<in> A \<and> v \<in> B)"
proof
  assume "c # w \<in> conc A B"
  then obtain u v where e: "c # w = u @ v" and u: "u \<in> A" and v: "v \<in> B"
    by (auto simp add: conc_def)
  show "([] \<in> A \<and> c # w \<in> B) \<or> (\<exists>u v. w = u @ v \<and> c # u \<in> A \<and> v \<in> B)"
  proof (cases u)
    case Nil
    with e u v show ?thesis by simp
  next
    case (Cons x xs)
    with e have "x = c" "w = xs @ v" by simp_all
    with Cons u v show ?thesis by blast
  qed
next
  assume "([] \<in> A \<and> c # w \<in> B) \<or> (\<exists>u v. w = u @ v \<and> c # u \<in> A \<and> v \<in> B)"
  then show "c # w \<in> conc A B"
  proof
    assume "[] \<in> A \<and> c # w \<in> B"
    then have "[] @ (c # w) \<in> conc A B" unfolding conc_def by blast
    then show ?thesis by simp
  next
    assume "\<exists>u v. w = u @ v \<and> c # u \<in> A \<and> v \<in> B"
    then obtain u v where "w = u @ v" "c # u \<in> A" "v \<in> B" by blast
    then have "(c # u) @ v \<in> conc A B" unfolding conc_def by blast
    with \<open>w = u @ v\<close> show ?thesis by simp
  qed
qed

lemma star_Cons_iff:
  "c # w \<in> star A \<longleftrightarrow> (\<exists>u v. w = u @ v \<and> c # u \<in> A \<and> v \<in> star A)"
proof
  assume "c # w \<in> star A"
  then show "\<exists>u v. w = u @ v \<and> c # u \<in> A \<and> v \<in> star A"
  proof (induction "c # w" arbitrary: w rule: star.induct)
    case (star_app u v)
    show ?case
    proof (cases u)
      case Nil
      with star_app show ?thesis by simp
    next
      case (Cons x xs)
      with star_app(4) have "x = c" "w = xs @ v" by simp_all
      with Cons star_app(1,2) show ?thesis by blast
    qed
  qed
next
  assume "\<exists>u v. w = u @ v \<and> c # u \<in> A \<and> v \<in> star A"
  then obtain u v where "w = u @ v" "c # u \<in> A" "v \<in> star A" by blast
  then have "(c # u) @ v \<in> star A" by (blast intro: star_app)
  with \<open>w = u @ v\<close> show "c # w \<in> star A" by simp
qed

lemma nullable_iff: "nullable r \<longleftrightarrow> [] \<in> lang r"
  by (induction r) (auto simp add: conc_Nil_iff intro: star_nil)

lemma lang_deriv: "w \<in> lang (deriv c r) \<longleftrightarrow> c # w \<in> lang r"
proof (induction r arbitrary: w)
  case (Seq r s)
  have "w \<in> conc (lang (deriv c r)) (lang s) \<longleftrightarrow>
        (\<exists>u v. w = u @ v \<and> c # u \<in> lang r \<and> v \<in> lang s)"
    using Seq(1) by (auto simp add: conc_def)
  with Seq(2) show ?case
    by (auto simp add: conc_Cons_iff nullable_iff)
next
  case (Star r)
  have "w \<in> conc (lang (deriv c r)) (star (lang r)) \<longleftrightarrow>
        (\<exists>u v. w = u @ v \<and> c # u \<in> lang r \<and> v \<in> star (lang r))"
    using Star by (auto simp add: conc_def)
  then show ?case by (simp add: star_Cons_iff)
qed auto

lemma matches_iff: "matches r s \<longleftrightarrow> s \<in> lang r"
  by (induction s arbitrary: r) (simp_all add: nullable_iff lang_deriv)

lemma in_lang_Class: "s \<in> lang (Class P) \<longleftrightarrow> (\<exists>c. s = [c] \<and> P c)"
  by auto

lemma concI: "u \<in> A \<Longrightarrow> v \<in> B \<Longrightarrow> u @ v \<in> conc A B"
  unfolding conc_def by blast

lemma concE: "s \<in> conc A B \<Longrightarrow> (\<And>u v. s = u @ v \<Longrightarrow> u \<in> A \<Longrightarrow> v \<in> B \<Longrightarrow> R) \<Longrightarrow> R"
  unfolding conc_def by blast

lemma in_conc_Class:
  "s \<in> conc (lang (Class P)) B \<longleftrightarrow> (\<exists>c t. s = c # t \<and> P c \<and> t \<in> B)"
proof
  assume "s \<in> conc (lang (Class P)) B"
  then obtain u v where "s = u @ v" "u \<in> lang (Class P)" "v \<in> B" by (rule concE)
  then show "\<exists>c t. s = c # t \<and> P c \<and> t \<in> B" by auto
next
  assume "\<exists>c t. s = c # t \<and> P c \<and> t \<in> B"
  then obtain c t where s: "s = c # t" and "P c" "t \<in> B" by blast
  then have "[c] @ t \<in> conc (lang (Class P)) B" by (intro concI) simp_all
  with s show "s \<in> conc (lang (Class P)) B" by simp
qed

lemma in_conc_Un: "s \<in> conc (A \<union> B) C \<longleftrightarrow> s \<in> conc A C \<or> s \<in> conc B C"
  unfolding conc_def by blast

lemma in_conc_Eps: "s \<in> conc {[]} B \<longleftrightarrow> s \<in> B"
  unfolding conc_def by simp

lemma conc_assoc: "conc (conc A B) C = conc A (conc B C)"
proof (rule set_eqI)
  fix s
  show "s \<in> conc (conc A B) C \<longleftrightarrow> s \<in> conc A (conc B C)"
  proof
    assume "s \<in> conc (conc A B) C"
    then obtain uv w where s: "s = uv @ w" and "uv \<in> conc A B" and w: "w \<in> C" by (rule concE)
    then obtain u v where uv: "uv = u @ v" and u: "u \<in> A" and v: "v \<in> B" by (elim concE)
    from u concI [OF v w] have "u @ (v @ w) \<in> conc A (conc B C)" by (rule concI)
    with s uv show "s \<in> conc A (conc B C)" by simp
  next
    assume "s \<in> conc A (conc B C)"
    then obtain u vw where s: "s = u @ vw" and u: "u \<in> A" and "vw \<in> conc B C" by (rule concE)
    then obtain v w where vw: "vw = v @ w" and v: "v \<in> B" and w: "w \<in> C" by (elim concE)
    from concI [OF u v] w have "(u @ v) @ w \<in> conc (conc A B) C" by (rule concI)
    with s vw show "s \<in> conc (conc A B) C" by simp
  qed
qed

lemma in_star_Class: "s \<in> star (lang (Class P)) \<longleftrightarrow> list_all P s"
proof
  assume "s \<in> star (lang (Class P))"
  then show "list_all P s" by (induction rule: star.induct) auto
next
  assume "list_all P s"
  then show "s \<in> star (lang (Class P))"
  proof (induction s)
    case Nil
    show ?case by (rule star_nil)
  next
    case (Cons c cs)
    then have "[c] \<in> lang (Class P)" "cs \<in> star (lang (Class P))" by simp_all
    then have "[c] @ cs \<in> star (lang (Class P))" by (rule star_app)
    then show ?case by simp
  qed
qed

lemma in_conc_star_Class:
  "s \<in> conc (star (lang (Class P))) B \<longleftrightarrow> (\<exists>ws t. s = ws @ t \<and> list_all P ws \<and> t \<in> B)"
  unfolding conc_def in_star_Class [symmetric] by blast

lemma lang_Opt: "lang (Opt r) = lang r \<union> {[]}"
  by (simp add: Opt_def)

lemma lang_Chr: "lang (Chr c) = lang (Class (\<lambda>x. x = c))"
  by (simp add: Chr_def)



lemma in_conc_Class_case:
  "s \<in> conc (lang (Class P)) B \<longleftrightarrow> (case s of [] \<Rightarrow> False | c # t \<Rightarrow> P c \<and> t \<in> B)"
  unfolding in_conc_Class by (cases s) simp_all

lemma in_lang_Class_case:
  "s \<in> lang (Class P) \<longleftrightarrow> (case s of [] \<Rightarrow> False | c # t \<Rightarrow> P c \<and> t = [])"
  unfolding in_lang_Class by (cases s) auto

lemmas lang_unfold = lang.simps(4,5) lang_Opt lang_Chr
lemmas lang_shape = in_conc_Un conc_assoc in_conc_Class_case in_conc_Eps in_lang_Class_case

lemma lang_time24:
  "c \<in> lang time24Regex \<longleftrightarrow>
     (\<exists>a x y. c = [a, CHR '':'', x, y] \<and> oneOf ''0123456789'' a
        \<and> oneOf ''012345'' x \<and> oneOf ''0123456789'' y)
   \<or> (\<exists>a b x y. c = [a, b, CHR '':'', x, y]
        \<and> (oneOf ''01'' a \<and> oneOf ''0123456789'' b \<or> a = CHR ''2'' \<and> oneOf ''0123'' b)
        \<and> oneOf ''012345'' x \<and> oneOf ''0123456789'' y)"
  unfolding time24Regex_def
  apply (simp only: lang_unfold)
  apply (simp only: lang_shape)
  apply (simp split: list.splits)
  apply blast
  done

lemma isDigit_oneOf: "isDigit c \<longleftrightarrow> oneOf ''0123456789'' c"
  by (simp add: isDigit_def oneOf_def digits_def)

lemma digit_facts:
  assumes "isDigit c"
  shows "digitValue c \<le> 9"
    and "digitValue c \<le> 5 \<longleftrightarrow> oneOf ''012345'' c"
    and "digitValue c \<le> 1 \<longleftrightarrow> oneOf ''01'' c"
    and "digitValue c = 2 \<longleftrightarrow> c = CHR ''2''"
    and "digitValue c \<le> 3 \<longleftrightarrow> oneOf ''0123'' c"
  using assms by (auto simp add: isDigit_def oneOf_def digits_def digitValue_def)

lemma decimalValue_1: "decimalValue [a] = digitValue a"
  by (simp add: decimalValue_def)

lemma decimalValue_2: "decimalValue [a, b] = 10 * digitValue a + digitValue b"
  by (simp add: decimalValue_def)

lemma hour_le_23:
  assumes "isDigit a" "isDigit b"
  shows "decimalValue [a, b] \<le> 23 \<longleftrightarrow>
         (oneOf ''01'' a \<or> (a = CHR ''2'' \<and> oneOf ''0123'' b))"
proof -
  have "10 * digitValue a + digitValue b \<le> 23 \<longleftrightarrow>
        digitValue a \<le> 1 \<or> (digitValue a = 2 \<and> digitValue b \<le> 3)"
    using digit_facts(1) [OF assms(2)] by arith
  then show ?thesis
    using digit_facts(3,4) [OF assms(1)] digit_facts(5) [OF assms(2)]
    by (simp add: decimalValue_2)
qed

lemma minute_le_59:
  assumes "isDigit x" "isDigit y"
  shows "decimalValue [x, y] \<le> 59 \<longleftrightarrow> oneOf ''012345'' x"
proof -
  have "10 * digitValue x + digitValue y \<le> 59 \<longleftrightarrow> digitValue x \<le> 5"
    using digit_facts(1) [OF assms(2)] by arith
  then show ?thesis
    using digit_facts(2) [OF assms(1)] by (simp add: decimalValue_2)
qed

lemma hourDigits_cases:
  "hourDigits h \<longleftrightarrow> (\<exists>a. h = [a] \<and> isDigit a) \<or> (\<exists>a b. h = [a, b] \<and> isDigit a \<and> isDigit b)"
  by (auto simp add: hourDigits_def length_Suc_conv numeral_2_eq_2)

lemma minuteDigits_cases:
  "minuteDigits m \<longleftrightarrow> (\<exists>x y. m = [x, y] \<and> isDigit x \<and> isDigit y)"
  by (auto simp add: minuteDigits_def length_Suc_conv numeral_2_eq_2)

lemma pattern24_iff: "pattern24 c \<longleftrightarrow> matches time24Regex c"
proof
  assume "pattern24 c"
  then obtain h m where c: "c = h @ '':'' @ m" and h: "hourDigits h" "decimalValue h \<le> 23"
    and m: "minuteDigits m" "decimalValue m \<le> 59"
    unfolding pattern24_def by blast
  from m obtain x y where xy: "m = [x, y]" "isDigit x" "isDigit y" "oneOf ''012345'' x"
    using minute_le_59 by (auto simp add: minuteDigits_cases)
  from h(1) consider a where "h = [a]" "isDigit a" | a b where "h = [a, b]" "isDigit a" "isDigit b"
    unfolding hourDigits_cases by blast
  then have "c \<in> lang time24Regex"
  proof cases
    case 1
    with c xy show ?thesis by (simp add: lang_time24 isDigit_oneOf)
  next
    case 2
    with h(2) have "oneOf ''01'' a \<or> (a = CHR ''2'' \<and> oneOf ''0123'' b)"
      by (simp add: hour_le_23)
    with c xy 2 show ?thesis by (simp add: lang_time24 isDigit_oneOf)
  qed
  then show "matches time24Regex c" by (simp add: matches_iff)
next
  assume "matches time24Regex c"
  then have "c \<in> lang time24Regex" by (simp add: matches_iff)
  then consider a x y where "c = [a, CHR '':'', x, y]" "isDigit a" "oneOf ''012345'' x" "isDigit y"
    | a b x y where "c = [a, b, CHR '':'', x, y]"
        "oneOf ''01'' a \<and> isDigit b \<or> a = CHR ''2'' \<and> oneOf ''0123'' b"
        "oneOf ''012345'' x" "isDigit y"
    unfolding lang_time24 isDigit_oneOf by blast
  then show "pattern24 c"
  proof cases
    case 1
    have x: "isDigit x" using 1(3) by (auto simp add: oneOf_def isDigit_def digits_def)
    have "c = [a] @ '':'' @ [x, y]" using 1(1) by simp
    moreover have "hourDigits [a]" using 1(2) by (simp add: hourDigits_def)
    moreover have "decimalValue [a] \<le> 23"
      using digit_facts(1) [OF 1(2)] by (simp add: decimalValue_1)
    moreover have "minuteDigits [x, y]" using x 1(4) by (simp add: minuteDigits_def)
    moreover have "decimalValue [x, y] \<le> 59" using x 1(3,4) by (simp add: minute_le_59)
    ultimately show ?thesis unfolding pattern24_def by blast
  next
    case 2
    have x: "isDigit x" using 2(3) by (auto simp add: oneOf_def isDigit_def digits_def)
    have a: "isDigit a" and b: "isDigit b"
      using 2(2) by (auto simp add: oneOf_def isDigit_def digits_def)
    have "c = [a, b] @ '':'' @ [x, y]" using 2(1) by simp
    moreover have "hourDigits [a, b]" using a b by (simp add: hourDigits_def)
    moreover have "decimalValue [a, b] \<le> 23" using a b 2(2) by (simp add: hour_le_23)
    moreover have "minuteDigits [x, y]" using x 2(4) by (simp add: minuteDigits_def)
    moreover have "decimalValue [x, y] \<le> 59" using x 2(3,4) by (simp add: minute_le_59)
    ultimately show ?thesis unfolding pattern24_def by blast
  qed
qed

section \<open>Properties of the time normalizer\<close>



lemma ampm_tail:
  "t \<in> conc (star (lang (Class isSpace)))
         (conc (lang (Class (oneOf ''Aa''))) (lang (Class (oneOf ''Mm'')))
          \<union> conc (lang (Class (oneOf ''Pp''))) (lang (Class (oneOf ''Mm''))))
   \<longleftrightarrow> (\<exists>ws x y. t = ws @ [x, y] \<and> list_all isSpace ws
          \<and> (oneOf ''Aa'' x \<or> oneOf ''Pp'' x) \<and> oneOf ''Mm'' y)"
  (is "t \<in> conc ?S ?P \<longleftrightarrow> ?R")
proof -
  have P: "p \<in> ?P \<longleftrightarrow> (\<exists>x y. p = [x, y] \<and> (oneOf ''Aa'' x \<or> oneOf ''Pp'' x) \<and> oneOf ''Mm'' y)"
    for p
    apply (simp only: Un_iff in_conc_Class_case in_lang_Class_case)
    apply (simp split: list.splits)
    apply blast
    done
  show ?thesis
    unfolding in_conc_star_Class P by blast
qed

lemma lang_time12:
  "c \<in> lang time12Regex \<longleftrightarrow>
     (\<exists>h m ws x y. c = h @ '':'' @ m @ ws @ [x, y] \<and> hourDigits h \<and> minuteDigits m
        \<and> list_all isSpace ws \<and> (oneOf ''Aa'' x \<or> oneOf ''Pp'' x) \<and> oneOf ''Mm'' y)"
  (is "_ \<longleftrightarrow> ?R")
proof -
  let ?T = "conc (star (lang (Class isSpace)))
         (conc (lang (Class (oneOf ''Aa''))) (lang (Class (oneOf ''Mm'')))
          \<union> conc (lang (Class (oneOf ''Pp''))) (lang (Class (oneOf ''Mm''))))"
  have 1: "c \<in> lang time12Regex \<longleftrightarrow>
      (\<exists>a x y t. c = a # CHR '':'' # x # y # t \<and> isDigit a \<and> isDigit x \<and> isDigit y \<and> t \<in> ?T)
    \<or> (\<exists>a b x y t. c = a # b # CHR '':'' # x # y # t \<and> isDigit a \<and> isDigit b
           \<and> isDigit x \<and> isDigit y \<and> t \<in> ?T)"
    unfolding time12Regex_def
    apply (simp only: lang_unfold)
    apply (simp only: in_conc_Un conc_assoc in_conc_Class_case in_conc_Eps)
    apply (simp split: list.splits)
    apply blast
    done
  have 2: "?R \<longleftrightarrow> (\<exists>h m t. c = h @ '':'' @ m @ t \<and> hourDigits h \<and> minuteDigits m \<and> t \<in> ?T)"
    unfolding ampm_tail by blast
  show ?thesis
  proof
    assume "c \<in> lang time12Regex"
    then consider
      (short) a x y t where "c = a # CHR '':'' # x # y # t" "isDigit a" "isDigit x" "isDigit y"
        "t \<in> ?T"
    | (long) a b x y t where "c = a # b # CHR '':'' # x # y # t" "isDigit a" "isDigit b"
        "isDigit x" "isDigit y" "t \<in> ?T"
      using 1 by blast
    then have "\<exists>h m t. c = h @ '':'' @ m @ t \<and> hourDigits h \<and> minuteDigits m \<and> t \<in> ?T"
    proof cases
      case short
      then have "c = [a] @ '':'' @ [x, y] @ t" "hourDigits [a]" "minuteDigits [x, y]"
        by (simp_all add: hourDigits_def minuteDigits_def)
      with short(5) show ?thesis by blast
    next
      case long
      then have "c = [a, b] @ '':'' @ [x, y] @ t" "hourDigits [a, b]" "minuteDigits [x, y]"
        by (simp_all add: hourDigits_def minuteDigits_def)
      with long(6) show ?thesis by blast
    qed
    with 2 show ?R by blast
  next
    assume ?R
    with 2 obtain h m t where c: "c = h @ '':'' @ m @ t" and h: "hourDigits h"
      and m: "minuteDigits m" and t: "t \<in> ?T" by blast
    from m obtain x y where xy: "m = [x, y]" "isDigit x" "isDigit y"
      unfolding minuteDigits_cases by blast
    from h consider a where "h = [a]" "isDigit a" | a b where "h = [a, b]" "isDigit a" "isDigit b"
      unfolding hourDigits_cases by blast
    then show "c \<in> lang time12Regex"
    proof cases
      case 1
      with c xy t have "\<exists>a x y t. c = a # CHR '':'' # x # y # t \<and> isDigit a \<and> isDigit x
          \<and> isDigit y \<and> t \<in> ?T" by simp
      then show ?thesis using \<open>c \<in> lang time12Regex \<longleftrightarrow> _\<close> by blast
    next
      case 2
      with c xy t have "\<exists>a b x y t. c = a # b # CHR '':'' # x # y # t \<and> isDigit a \<and> isDigit b
          \<and> isDigit x \<and> isDigit y \<and> t \<in> ?T" by simp
      then show ?thesis using \<open>c \<in> lang time12Regex \<longleftrightarrow> _\<close> by blast
    qed
  qed
qed

lemma digit_not_colon: "isDigit c \<Longrightarrow> c \<noteq> CHR '':''"
  by (auto simp add: isDigit_def digits_def)

lemma hourDigits_no_colon: "hourDigits h \<Longrightarrow> \<forall>c\<in>set h. c \<noteq> CHR '':''"
  by (auto simp add: hourDigits_def list_all_iff digit_not_colon)

lemma groups_time12:
  assumes c: "c = h @ '':'' @ m @ ws @ p" and h: "hourDigits h" and m: "minuteDigits m"
    and p: "length p = 2"
  shows "takeWhile (\<lambda>c. c \<noteq> CHR '':'') c = h"
    and "take 2 (drop 1 (dropWhile (\<lambda>c. c \<noteq> CHR '':'') c)) = m"
    and "drop (length c - 2) c = p"
proof -
  from h have nc: "\<forall>x\<in>set h. x \<noteq> CHR '':''" by (rule hourDigits_no_colon)
  then show "takeWhile (\<lambda>c. c \<noteq> CHR '':'') c = h"
    unfolding c by (simp add: takeWhile_append2)
  from nc have "dropWhile (\<lambda>c. c \<noteq> CHR '':'') c = '':'' @ m @ ws @ p"
    unfolding c by (simp add: dropWhile_append2)
  with m show "take 2 (drop 1 (dropWhile (\<lambda>c. c \<noteq> CHR '':'') c)) = m"
    by (simp add: minuteDigits_def)
  have "c = (h @ '':'' @ m @ ws) @ p" unfolding c by simp
  moreover have "length c - 2 = length (h @ '':'' @ m @ ws)" using p unfolding c by simp
  ultimately show "drop (length c - 2) c = p" by (metis append_eq_conv_conj)
qed

lemma parseInt_hourDigits: "hourDigits h \<Longrightarrow> parseInt h = Some (decimalValue h)"
proof -
  assume h: "hourDigits h"
  then have tw: "takeWhile isDigit h = h" by (simp add: hourDigits_def list_all_iff)
  from h have "h \<noteq> []" by (auto simp add: hourDigits_def)
  then show ?thesis unfolding parseInt_def Let_def tw by simp
qed

lemma pattern12_lang:
  assumes "pattern12 c h m p" shows "c \<in> lang time12Regex"
proof -
  from assms obtain ws where c: "c = h @ '':'' @ m @ ws @ p" and "hourDigits h" "minuteDigits m"
    "list_all isSpace ws" and p: "p = ''AM'' \<or> p = ''PM''"
    unfolding pattern12_def by blast
  moreover from p obtain x y where "p = [x, y]" "oneOf ''Aa'' x \<or> oneOf ''Pp'' x" "oneOf ''Mm'' y"
    by (auto simp add: oneOf_def)
  ultimately show ?thesis unfolding lang_time12 by blast
qed


lemma pattern24_last_digit:
  assumes "pattern24 c" shows "c \<noteq> [] \<and> isDigit (last c)"
proof -
  from assms obtain h m where c: "c = h @ '':'' @ m" and m: "minuteDigits m"
    unfolding pattern24_def by blast
  from m obtain x y where "m = [x, y]" "isDigit y" unfolding minuteDigits_cases by blast
  with c show ?thesis by simp
qed

lemma pattern12_not_24:
  assumes "pattern12 c h m p" shows "\<not> pattern24 c"
proof
  assume "pattern24 c"
  then have d: "isDigit (last c)" using pattern24_last_digit by blast
  from assms obtain ws where c: "c = h @ '':'' @ m @ ws @ p" and p: "p = ''AM'' \<or> p = ''PM''"
    unfolding pattern12_def by blast
  from p have "last c = CHR ''M''" unfolding c by auto
  with d show False by (simp add: isDigit_def digits_def)
qed


lemma normalizeTime_12:
  assumes "pattern12 (cleanedTime s) h m p"
  shows "normalizeTime s =
    Inr (padStart 2 CHR ''0'' (natToString (to24 (decimalValue h) p)) @ '':'' @ m)"
proof -
  let ?c = "cleanedTime s"
  from assms obtain ws where c: "?c = h @ '':'' @ m @ ws @ p" and h: "hourDigits h"
    and m: "minuteDigits m" and p: "p = ''AM'' \<or> p = ''PM''"
    unfolding pattern12_def by blast
  from p have lp: "length p = 2" by auto
  have n24: "\<not> matches time24Regex ?c"
    using pattern12_not_24 [OF assms] by (simp add: pattern24_iff)
  have m12: "matches time12Regex ?c"
    using pattern12_lang [OF assms] by (simp add: matches_iff)
  have g: "match12 ?c = Some (h, m, p)"
    using m12 groups_time12 [OF c h m lp] by (simp add: match12_def)
  show ?thesis
    using n24 g parseInt_hourDigits [OF h]
    by (simp add: normalizeTime_def cleanedTime_def [symmetric] test_def Let_def
        numberToString_def to24_def)
qed


lemma upperChar_id: "\<not> isLower c \<Longrightarrow> upperChar c = c"
  by (auto simp add: char_defs)

lemma digit_plain: "isDigit c \<Longrightarrow> \<not> isLower c \<and> \<not> isSpace c"
  by (auto simp add: char_defs)

lemma cleanedTime_12:
  assumes h: "hourDigits h" and m: "minuteDigits m" and p: "p = ''AM'' \<or> p = ''PM''"
  shows "cleanedTime (h @ '':'' @ m @ '' '' @ p) = h @ '':'' @ m @ '' '' @ p"
proof -
  let ?s = "h @ '':'' @ m @ '' '' @ p"
  from h obtain a h' where ha: "h = a # h'" "isDigit a"
    unfolding hourDigits_cases by blast
  then have "\<not> isSpace a" by (simp add: digit_plain)
  with ha have 1: "trimStart ?s = ?s" by (simp add: trimStart_def)
  from p obtain q where q: "?s = q @ ''M''" by auto
  have "\<not> isSpace CHR ''M''" by (simp add: isSpace_def)
  then have 2: "trimEnd ?s = ?s" unfolding q by (simp add: trimEnd_def)
  have "\<forall>c\<in>set h. \<not> isLower c" "\<forall>c\<in>set m. \<not> isLower c"
    using h m digit_plain unfolding hourDigits_def minuteDigits_def list_all_iff by blast+
  moreover have "\<forall>c\<in>set ('':'' @ '' '' @ p). \<not> isLower c"
    using p by (auto simp add: isLower_def lowerLetters_def)
  ultimately have "\<forall>c\<in>set ?s. \<not> isLower c" by auto
  then have 3: "toUpperCase ?s = ?s"
    unfolding toUpperCase_def by (simp add: map_idI upperChar_id)
  show ?thesis unfolding cleanedTime_def trim_def 1 2 3 ..
qed



text \<open>
  C9: the 12-hour branch takes any hour of one or two digits and does not check that it
  lies in \<open>[1,12]\<close>: \<open>normalizeTime\<close> succeeds on every such input, and for \<open>"13:30 PM"\<close> it
  returns \<open>"25:30"\<close>, whose hour is above 23 and which is no 24-hour time.
\<close>

theorem normalizeTime_hour_unchecked:
  "(hourDigits h \<and> minuteDigits m \<and> (p = ''AM'' \<or> p = ''PM'') \<longrightarrow>
      normalizeTime (h @ '':'' @ m @ '' '' @ p) =
        Inr (padStart 2 CHR ''0'' (natToString (to24 (decimalValue h) p)) @ '':'' @ m))
   \<and> normalizeTime ''13:30 PM'' = Inr ''25:30''
   \<and> 23 < decimalValue ''25''
   \<and> \<not> pattern24 ''25:30''"
proof -
  have "normalizeTime (h @ '':'' @ m @ '' '' @ p) =
        Inr (padStart 2 CHR ''0'' (natToString (to24 (decimalValue h) p)) @ '':'' @ m)"
    if h: "hourDigits h" and m: "minuteDigits m" and p: "p = ''AM'' \<or> p = ''PM''"
  proof (rule normalizeTime_12)
    have "list_all isSpace '' ''" by (simp add: isSpace_def)
    with h m p show "pattern12 (cleanedTime (h @ '':'' @ m @ '' '' @ p)) h m p"
      unfolding cleanedTime_12 [OF h m p] pattern12_def by blast
  qed
  moreover have "normalizeTime ''13:30 PM'' = Inr ''25:30''" by code_simp
  moreover have "23 < decimalValue ''25''" by code_simp
  moreover have "\<not> matches time24Regex ''25:30''" by code_simp
  ultimately show ?thesis by (simp add: pattern24_iff)
qed

theorem normalizeTime_hour_unchecked_witness:
  "hourDigits ''99'' \<and> minuteDigits ''59''
   \<and> normalizeTime (''99'' @ '':'' @ ''59'' @ '' '' @ ''PM'') = Inr ''111:59''"
proof -
  have a: "hourDigits ''99''" "minuteDigits ''59''"
    by (simp_all add: hourDigits_def minuteDigits_def isDigit_def digits_def)
  have e: "padStart 2 CHR ''0'' (natToString (to24 (decimalValue ''99'') ''PM'')) @ '':'' @ ''59''
      = ''111:59''" by code_simp
  from normalizeTime_hour_unchecked [of "''99''" "''59''" "''PM''"] a
  have "normalizeTime (''99'' @ '':'' @ ''59'' @ '' '' @ ''PM'') = Inr ''111:59''"
    unfolding e by blast
  with a show ?thesis by blast
qed

section \<open>Properties of the date normalizer\<close>
































section \<open>Properties of the booking model\<close>







lemma map_of_upsert_same: "map_of (upsert k v l) k = Some v"
  by (induction l) auto

lemma isModified_markModified: "isModified p (markModified q d) \<longleftrightarrow> isModified p d \<or> p = q"
  by (auto simp add: markModified_def isModified_def)

lemma content_markModified: "content (markModified q d) = content d"
  by (simp add: markModified_def)

lemma oid_markModified: "oid (markModified q d) = oid d"
  by (simp add: markModified_def)

lemma assignSlug_content:
  "content (assignSlug v d) = (content d)\<lparr>slug := toLowerCase (trim v)\<rparr>"
  by (simp add: assignSlug_def Let_def content_markModified)

lemma assignDate_content: "content (assignDate v d) = (content d)\<lparr>date := v\<rparr>"
  by (simp add: assignDate_def content_markModified)

lemma assignTime_content: "content (assignTime v d) = (content d)\<lparr>time := v\<rparr>"
  by (simp add: assignTime_def content_markModified)

lemma assignDescription_content:
  "content (assignDescription v d) = (content d)\<lparr>description := trim v\<rparr>"
  by (simp add: assignDescription_def Let_def content_markModified)

lemma assign_oid:
  "oid (assignSlug v d) = oid d" "oid (assignDate v d) = oid d" "oid (assignTime v d) = oid d"
  "oid (assignDescription v d) = oid d"
  by (simp_all add: assignSlug_def assignDate_def assignTime_def assignDescription_def Let_def
      oid_markModified)

lemma assignSlug_isModified: "p \<noteq> Slug \<Longrightarrow> isModified p (assignSlug v d) = isModified p d"
  by (simp add: assignSlug_def Let_def isModified_markModified) (simp add: isModified_def)

lemma assignDate_isModified: "p \<noteq> Date \<Longrightarrow> isModified p (assignDate v d) = isModified p d"
  by (simp add: assignDate_def isModified_markModified) (simp add: isModified_def)

lemma assignDescription_isModified:
  "p \<noteq> Description \<Longrightarrow> isModified p (assignDescription v d) = isModified p d"
  by (simp add: assignDescription_def Let_def isModified_markModified) (simp add: isModified_def)

lemma saveBooking_cases:
  "saveBooking st d =
     (if \<not> validateBooking (content d) then (st, Inl FieldValidationError)
      else if isNew d \<or> isModified EventId d
      then (if findById (events st) (eventId (content d)) = None
            then (st\<lparr>eventLookups := eventLookups st @ [eventId (content d)]\<rparr>,
                  Inl DanglingReferenceError)
            else (st\<lparr>eventLookups := eventLookups st @ [eventId (content d)],
                      bookings := upsert (oid d) (content d) (bookings st)\<rparr>,
                  Inr (d\<lparr>isNew := False, modifiedPaths := []\<rparr>)))
      else (st\<lparr>bookings := upsert (oid d) (content d) (bookings st)\<rparr>,
            Inr (d\<lparr>isNew := False, modifiedPaths := []\<rparr>)))"
  by (simp add: saveBooking_def bookingPreSave_def Let_def)

text \<open>
  C1: when a booking is created, or its \<open>eventId\<close> is set anew, the hook looks the event up
  by \<open>eventId\<close> (one lookup, recorded in \<open>eventLookups\<close>). When no event is found, the write
  fails with \<open>DanglingReferenceError\<close> and the collection of bookings is as it was, so its
  count is unchanged. A booking that was written after this check had its event in the
  store at the check. When the document is not new and its \<open>eventId\<close> is unchanged, no
  lookup is performed.
\<close>

theorem booking_reference_check:
  "((isNew d \<or> isModified EventId d) \<and> validateBooking (content d)
      \<and> findById (events st) (eventId (content d)) = None \<longrightarrow>
        snd (saveBooking st d) = Inl DanglingReferenceError
        \<and> bookings (fst (saveBooking st d)) = bookings st
        \<and> length (bookings (fst (saveBooking st d))) = length (bookings st)
        \<and> events (fst (saveBooking st d)) = events st
        \<and> eventLookups (fst (saveBooking st d)) = eventLookups st @ [eventId (content d)])
   \<and> ((isNew d \<or> isModified EventId d) \<and> snd (saveBooking st d) = Inr d' \<longrightarrow>
        (\<exists>e. findById (events st) (eventId (content d)) = Some e)
        \<and> eventLookups (fst (saveBooking st d)) = eventLookups st @ [eventId (content d)])
   \<and> (\<not> isNew d \<and> \<not> isModified EventId d \<longrightarrow>
        eventLookups (fst (saveBooking st d)) = eventLookups st)"
  by (auto simp add: saveBooking_cases)

theorem booking_reference_check_witness:
  "isNew sampleBooking \<and> validateBooking (content sampleBooking)
   \<and> findById (events emptyStore) (eventId (content sampleBooking)) = None
   \<and> snd (saveBooking emptyStore sampleBooking) = Inl DanglingReferenceError
   \<and> bookings (fst (saveBooking emptyStore sampleBooking)) = bookings emptyStore
   \<and> eventLookups (fst (saveBooking emptyStore sampleBooking)) = [Some 1]
   \<and> snd (saveBooking storeWithEvent sampleBooking)
        = Inr (sampleBooking\<lparr>isNew := False, modifiedPaths := []\<rparr>)
   \<and> findById (events storeWithEvent) (eventId (content sampleBooking)) = Some storedEvent
   \<and> \<not> isNew loadedBooking \<and> \<not> isModified EventId loadedBooking
   \<and> eventLookups (fst (saveBooking emptyStore loadedBooking)) = []"
proof -
  have a: "isNew sampleBooking" by (simp add: sampleBooking_def newBooking_def)
  have b: "validateBooking (content sampleBooking)" by code_simp
  have c: "findById (events emptyStore) (eventId (content sampleBooking)) = None" by code_simp
  have l: "eventLookups emptyStore = []" "eventId (content sampleBooking) = Some 1"
    by (simp_all add: emptyStore_def sampleBooking_def newBooking_def)
  have s: "snd (saveBooking storeWithEvent sampleBooking)
        = Inr (sampleBooking\<lparr>isNew := False, modifiedPaths := []\<rparr>)" by code_simp
  have n: "\<not> isNew loadedBooking" "\<not> isModified EventId loadedBooking"
    by (simp_all add: loadedBooking_def isModified_def)
  from booking_reference_check [of sampleBooking emptyStore] a b c l
  have 1: "snd (saveBooking emptyStore sampleBooking) = Inl DanglingReferenceError
     \<and> bookings (fst (saveBooking emptyStore sampleBooking)) = bookings emptyStore
     \<and> eventLookups (fst (saveBooking emptyStore sampleBooking)) = [Some 1]" by simp
  from booking_reference_check [of sampleBooking storeWithEvent
      "sampleBooking\<lparr>isNew := False, modifiedPaths := []\<rparr>"] a s
  have "\<exists>e. findById (events storeWithEvent) (eventId (content sampleBooking)) = Some e" by blast
  moreover have "findById (events storeWithEvent) (Some 1) = Some storedEvent"
    by (simp add: findById_def storeWithEvent_def)
  ultimately have 2: "findById (events storeWithEvent) (eventId (content sampleBooking)) = Some storedEvent"
    using l by simp
  from booking_reference_check [of loadedBooking emptyStore] n l
  have 3: "eventLookups (fst (saveBooking emptyStore loadedBooking)) = []" by simp
  from a b c 1 s 2 n 3 show ?thesis by blast
qed



section \<open>Properties of the event model\<close>

lemma slugStep_facts:
  "isModified Date (slugStep d) = isModified Date d"
  "isModified Time (slugStep d) = isModified Time d"
  "date (content (slugStep d)) = date (content d)"
  "time (content (slugStep d)) = time (content d)"
  "title (content (slugStep d)) = title (content d)"
  "oid (slugStep d) = oid d"
  "slug (content (slugStep d)) =
     (if isModified Title d then toLowerCase (trim (generateSlug (title (content d))))
      else slug (content d))"
  by (simp_all add: slugStep_def assignSlug_isModified assignSlug_content assign_oid)

lemma eventPreSave_unfold:
  "eventPreSave dateParse d =
     (case (if isModified Date d
            then (case normalizeDate dateParse (date (content d)) of
                    Inl e \<Rightarrow> Inl e
                  | Inr v \<Rightarrow> Inr (assignDate v (slugStep d)))
            else Inr (slugStep d)) of
        Inl e \<Rightarrow> Inl e
      | Inr d2 \<Rightarrow>
          (if isModified Time d
           then (case normalizeTime (time (content d)) of
                   Inl e \<Rightarrow> Inl e
                 | Inr v \<Rightarrow> Inr (assignTime v d2))
           else Inr d2))"
  unfolding eventPreSave_def Let_def slugStep_def [symmetric]
  by (auto simp add: slugStep_facts assignDate_isModified assignDate_content
      split: sum.splits)

lemma eventPreSave_unmodified:
  assumes "\<not> isModified Title d" "\<not> isModified Date d" "\<not> isModified Time d"
  shows "eventPreSave dateParse d = Inr d"
  using assms by (simp add: eventPreSave_unfold slugStep_def)

lemma eventPreSave_result:
  assumes "eventPreSave dateParse d = Inr d'"
  shows "oid d' = oid d"
    and "title (content d') = title (content d)"
    and "slug (content d') =
       (if isModified Title d then toLowerCase (trim (generateSlug (title (content d))))
        else slug (content d))"
    and "isModified Date d \<Longrightarrow> normalizeDate dateParse (date (content d)) = Inr (date (content d'))"
    and "\<not> isModified Date d \<Longrightarrow> date (content d') = date (content d)"
    and "isModified Time d \<Longrightarrow> normalizeTime (time (content d)) = Inr (time (content d'))"
    and "\<not> isModified Time d \<Longrightarrow> time (content d') = time (content d)"
  using assms unfolding eventPreSave_unfold
  by (auto simp add: slugStep_facts assignDate_content assignTime_content assign_oid
      split: sum.splits if_splits)

lemma slugForm_setters:
  assumes "slugForm t" shows "toLowerCase (trim t) = t"
proof -
  from assms have chars: "\<forall>c\<in>set t. isSlugChar c \<or> isHyphen c"
    by (simp add: slugForm_def list_all_iff)
  have noUpper: "\<forall>c\<in>set t. \<not> isUpper c"
    using chars slugChar_facts hyphen_facts by blast
  have noSpace: "\<forall>c\<in>set t. \<not> isSpace c"
    using chars slugChar_facts hyphen_facts by blast
  have "\<forall>c\<in>set (rev t). \<not> isSpace c" using noSpace by simp
  then have "dropWhile isSpace (rev t) = rev t" by (rule dropWhile_none)
  then have "trim t = t"
    using dropWhile_none [OF noSpace] by (simp add: trim_def trimStart_def trimEnd_def)
  moreover have "toLowerCase t = t"
    unfolding toLowerCase_def using noUpper by (simp add: map_idI lowerChar_id)
  ultimately show ?thesis by simp
qed

text \<open>
  C4: the hook changes the slug only when the title is modified, the date only when the
  date is modified, and the time only when the time is modified; when none of the three is
  modified it leaves the document as it is. When the title is modified, the slug becomes
  \<open>generateSlug\<close> of the title. So an update of a stored event that assigns a new
  description only leaves the stored slug, date, time and title what they were.
\<close>

theorem description_update_keeps_slug_date_time:
  "(\<not> isModified Title d \<and> \<not> isModified Date d \<and> \<not> isModified Time d \<longrightarrow>
      eventPreSave dateParse d = Inr d)
   \<and> (eventPreSave dateParse d = Inr d' \<longrightarrow>
        (\<not> isModified Title d \<longrightarrow> slug (content d') = slug (content d))
        \<and> (\<not> isModified Date d \<longrightarrow> date (content d') = date (content d))
        \<and> (\<not> isModified Time d \<longrightarrow> time (content d') = time (content d)))
   \<and> (eventPreSave dateParse d = Inr d' \<and> isModified Title d \<longrightarrow>
        slug (content d') = generateSlug (title (content d)))
   \<and> (findById (events st) (Some i) = Some ev \<longrightarrow>
        (\<exists>ev'. findById (events (fst (saveEvent dateParse st
                    (assignDescription v (loadEvent i ev))))) (Some i) = Some ev'
           \<and> slug ev' = slug ev \<and> date ev' = date ev \<and> time ev' = time ev
           \<and> title ev' = title ev))"
proof -
  have 1: "\<not> isModified Title d \<and> \<not> isModified Date d \<and> \<not> isModified Time d \<longrightarrow>
      eventPreSave dateParse d = Inr d"
    by (simp add: eventPreSave_unmodified)
  have 2: "eventPreSave dateParse d = Inr d' \<longrightarrow>
        (\<not> isModified Title d \<longrightarrow> slug (content d') = slug (content d))
        \<and> (\<not> isModified Date d \<longrightarrow> date (content d') = date (content d))
        \<and> (\<not> isModified Time d \<longrightarrow> time (content d') = time (content d))"
    using eventPreSave_result(3,5,7) [of dateParse d d'] by simp
  have 3: "\<exists>ev'. findById (events (fst (saveEvent dateParse st
                    (assignDescription v (loadEvent i ev))))) (Some i) = Some ev'
           \<and> slug ev' = slug ev \<and> date ev' = date ev \<and> time ev' = time ev
           \<and> title ev' = title ev"
    if f: "findById (events st) (Some i) = Some ev"
  proof -
    let ?d = "assignDescription v (loadEvent i ev)"
    have un: "\<not> isModified Title ?d" "\<not> isModified Date ?d" "\<not> isModified Time ?d"
      by (simp_all add: assignDescription_isModified) (simp_all add: isModified_def loadEvent_def)
    have pre: "eventPreSave dateParse ?d = Inr ?d" using un by (rule eventPreSave_unmodified)
    have c: "content ?d = ev\<lparr>description := trim v\<rparr>" "oid ?d = i"
      by (simp_all add: assignDescription_content assign_oid loadEvent_def)
    show ?thesis
    proof (cases "fst (saveEvent dateParse st ?d) = st")
      case True
      with f show ?thesis by simp
    next
      case False
      then have "events (fst (saveEvent dateParse st ?d)) = upsert i (ev\<lparr>description := trim v\<rparr>) (events st)"
        by (auto simp add: saveEvent_def pre c split: if_splits)
      then show ?thesis by (simp add: findById_def map_of_upsert_same)
    qed
  qed
  have 4: "eventPreSave dateParse d = Inr d' \<and> isModified Title d \<longrightarrow>
        slug (content d') = generateSlug (title (content d))"
    using eventPreSave_result(3) [of dateParse d d']
      slugForm_setters [OF slugForm_generateSlug, of "title (content d)"]
    by simp
  from 1 2 3 4 show ?thesis by blast
qed

theorem description_update_keeps_slug_date_time_witness:
  "\<not> isModified Title editedEvent \<and> \<not> isModified Date editedEvent
   \<and> \<not> isModified Time editedEvent \<and> isModified Description editedEvent
   \<and> eventPreSave hostAtUTC editedEvent = Inr editedEvent
   \<and> slug (content editedEvent) = ''react-summit-2025''
   \<and> date (content editedEvent) = ''2025-06-13''
   \<and> time (content editedEvent) = ''9:00''
   \<and> isModified Title (newEvent 2 sampleEvent)
   \<and> (\<exists>d'. eventPreSave hostAtUTC (newEvent 2 sampleEvent) = Inr d'
        \<and> slug (content d') = ''react-summit-2025'')
   \<and> findById (events storeWithEvent) (Some 1) = Some storedEvent
   \<and> (\<exists>ev'. findById (events (fst (saveEvent hostAtUTC storeWithEvent editedEvent))) (Some 1)
          = Some ev'
        \<and> description ev' = ''A new description of the summit''
        \<and> slug ev' = slug storedEvent \<and> date ev' = date storedEvent
        \<and> time ev' = time storedEvent \<and> title ev' = title storedEvent)"
proof -
  have m: "\<not> isModified Title editedEvent" "\<not> isModified Date editedEvent"
    "\<not> isModified Time editedEvent" "isModified Description editedEvent" by code_simp+
  have f: "findById (events storeWithEvent) (Some 1) = Some storedEvent"
    by (simp add: findById_def storeWithEvent_def)
  have v: "slug (content editedEvent) = ''react-summit-2025''"
    "date (content editedEvent) = ''2025-06-13''" "time (content editedEvent) = ''9:00''"
    by code_simp+
  have d: "map_option description
      (findById (events (fst (saveEvent hostAtUTC storeWithEvent editedEvent))) (Some 1))
      = Some ''A new description of the summit''" by code_simp
  note t = description_update_keeps_slug_date_time [of editedEvent hostAtUTC editedEvent
      storeWithEvent 1 storedEvent "''  A new description of the summit ''"]
  from t m have 1: "eventPreSave hostAtUTC editedEvent = Inr editedEvent" by blast
  from t f obtain ev' where
    e: "findById (events (fst (saveEvent hostAtUTC storeWithEvent editedEvent))) (Some 1) = Some ev'"
      "slug ev' = slug storedEvent" "date ev' = date storedEvent" "time ev' = time storedEvent"
      "title ev' = title storedEvent"
    unfolding editedEvent_def by blast
  from d e(1) have "description ev' = ''A new description of the summit''" by simp
  with e have 2: "\<exists>ev'. findById (events (fst (saveEvent hostAtUTC storeWithEvent editedEvent))) (Some 1)
          = Some ev'
        \<and> description ev' = ''A new description of the summit''
        \<and> slug ev' = slug storedEvent \<and> date ev' = date storedEvent
        \<and> time ev' = time storedEvent \<and> title ev' = title storedEvent" by blast
  have n: "isModified Title (newEvent 2 sampleEvent)" by code_simp
  have "\<not> isl (eventPreSave hostAtUTC (newEvent 2 sampleEvent))" by code_simp
  then obtain d2 where p: "eventPreSave hostAtUTC (newEvent 2 sampleEvent) = Inr d2"
    by (cases "eventPreSave hostAtUTC (newEvent 2 sampleEvent)") simp_all
  have g: "generateSlug (title (content (newEvent 2 sampleEvent))) = ''react-summit-2025''"
    by code_simp
  from description_update_keeps_slug_date_time [of "newEvent 2 sampleEvent" hostAtUTC d2] p n g
  have "slug (content d2) = ''react-summit-2025''" by simp
  with p have 3: "\<exists>d'. eventPreSave hostAtUTC (newEvent 2 sampleEvent) = Inr d'
        \<and> slug (content d') = ''react-summit-2025''" by blast
  from m 1 v n 3 f 2 show ?thesis by blast
qed

text \<open>
  C6: an error of the validation or of a normalizer aborts the write as a whole. Whenever
  \<open>save\<close> of an event or of a booking ends in an error, the two collections of the store are
  what they were before: nothing of the record is written. Each of the four errors arises
  where the specification says: \<open>FieldValidationError\<close> from the validators,
  \<open>InvalidDateFormat\<close> and \<open>InvalidTimeFormat\<close> from the two normalizers, and
  \<open>DanglingReferenceError\<close> from the lookup of the event.
\<close>

theorem errors_abort_write:
  "(snd (saveEvent dateParse st d) = Inl e \<longrightarrow>
      events (fst (saveEvent dateParse st d)) = events st
      \<and> bookings (fst (saveEvent dateParse st d)) = bookings st)
   \<and> (snd (saveBooking st b) = Inl e \<longrightarrow>
      events (fst (saveBooking st b)) = events st
      \<and> bookings (fst (saveBooking st b)) = bookings st)
   \<and> (\<not> validateEvent (content d) \<longrightarrow>
      snd (saveEvent dateParse st d) = Inl FieldValidationError)
   \<and> (validateEvent (content d) \<and> isModified Date d
        \<and> normalizeDate dateParse (date (content d)) = Inl InvalidDateFormat \<longrightarrow>
      snd (saveEvent dateParse st d) = Inl InvalidDateFormat)
   \<and> (validateEvent (content d)
        \<and> (isModified Date d \<longrightarrow> (\<exists>v. normalizeDate dateParse (date (content d)) = Inr v))
        \<and> isModified Time d \<and> normalizeTime (time (content d)) = Inl InvalidTimeFormat \<longrightarrow>
      snd (saveEvent dateParse st d) = Inl InvalidTimeFormat)
   \<and> (\<not> validateBooking (content b) \<longrightarrow>
      snd (saveBooking st b) = Inl FieldValidationError)
   \<and> (validateBooking (content b) \<and> (isNew b \<or> isModified EventId b)
        \<and> findById (events st) (eventId (content b)) = None \<longrightarrow>
      snd (saveBooking st b) = Inl DanglingReferenceError)"
proof -
  have 1: "snd (saveEvent dateParse st d) = Inl e \<longrightarrow> fst (saveEvent dateParse st d) = st"
    by (auto simp add: saveEvent_def split: sum.splits if_splits)
  have 2: "snd (saveBooking st b) = Inl e \<longrightarrow>
      events (fst (saveBooking st b)) = events st
      \<and> bookings (fst (saveBooking st b)) = bookings st"
    by (auto simp add: saveBooking_cases split: if_splits)
  have 3: "\<not> validateEvent (content d) \<longrightarrow>
      snd (saveEvent dateParse st d) = Inl FieldValidationError"
    by (simp add: saveEvent_def)
  have 4: "validateEvent (content d) \<and> isModified Date d
        \<and> normalizeDate dateParse (date (content d)) = Inl InvalidDateFormat \<longrightarrow>
      snd (saveEvent dateParse st d) = Inl InvalidDateFormat"
    by (simp add: saveEvent_def eventPreSave_unfold)
  have 5: "validateEvent (content d)
        \<and> (isModified Date d \<longrightarrow> (\<exists>v. normalizeDate dateParse (date (content d)) = Inr v))
        \<and> isModified Time d \<and> normalizeTime (time (content d)) = Inl InvalidTimeFormat \<longrightarrow>
      snd (saveEvent dateParse st d) = Inl InvalidTimeFormat"
    by (auto simp add: saveEvent_def eventPreSave_unfold)
  have 6: "\<not> validateBooking (content b) \<longrightarrow>
      snd (saveBooking st b) = Inl FieldValidationError"
    by (simp add: saveBooking_cases)
  have 7: "validateBooking (content b) \<and> (isNew b \<or> isModified EventId b)
        \<and> findById (events st) (eventId (content b)) = None \<longrightarrow>
      snd (saveBooking st b) = Inl DanglingReferenceError"
    by (auto simp add: saveBooking_cases)
  from 1 2 3 4 5 6 7 show ?thesis by simp
qed

theorem errors_abort_write_witness:
  "snd (saveEvent hostAtUTC storeWithEvent (newEvent 2 (sampleEvent\<lparr>title := ''ab''\<rparr>)))
     = Inl FieldValidationError
   \<and> fst (saveEvent hostAtUTC storeWithEvent (newEvent 2 (sampleEvent\<lparr>title := ''ab''\<rparr>)))
     = storeWithEvent
   \<and> snd (saveEvent hostAtUTC storeWithEvent (newEvent 2 (sampleEvent\<lparr>date := ''2025-13-40''\<rparr>)))
     = Inl InvalidDateFormat
   \<and> events (fst (saveEvent hostAtUTC storeWithEvent
        (newEvent 2 (sampleEvent\<lparr>date := ''2025-13-40''\<rparr>)))) = events storeWithEvent
   \<and> snd (saveEvent hostAtUTC storeWithEvent (newEvent 2 (sampleEvent\<lparr>time := ''25:00''\<rparr>)))
     = Inl InvalidTimeFormat
   \<and> events (fst (saveEvent hostAtUTC storeWithEvent
        (newEvent 2 (sampleEvent\<lparr>time := ''25:00''\<rparr>)))) = events storeWithEvent
   \<and> snd (saveBooking storeWithEvent (newBooking 7 (Some 1) (Some ''ann'')))
     = Inl FieldValidationError
   \<and> bookings (fst (saveBooking storeWithEvent (newBooking 7 (Some 1) (Some ''ann''))))
     = bookings storeWithEvent
   \<and> snd (saveBooking storeWithEvent (newBooking 7 (Some 5) (Some ''ann@example.org'')))
     = Inl DanglingReferenceError
   \<and> bookings (fst (saveBooking storeWithEvent (newBooking 7 (Some 5) (Some ''ann@example.org''))))
     = bookings storeWithEvent"
proof -
  let ?e1 = "newEvent 2 (sampleEvent\<lparr>title := ''ab''\<rparr>)"
  let ?e2 = "newEvent 2 (sampleEvent\<lparr>date := ''2025-13-40''\<rparr>)"
  let ?e3 = "newEvent 2 (sampleEvent\<lparr>time := ''25:00''\<rparr>)"
  let ?b1 = "newBooking 7 (Some 1) (Some ''ann'')"
  let ?b2 = "newBooking 7 (Some 5) (Some ''ann@example.org'')"
  have h1: "\<not> validateEvent (content ?e1)" by code_simp
  have h2: "validateEvent (content ?e2)" "isModified Date ?e2"
    "normalizeDate hostAtUTC (date (content ?e2)) = Inl InvalidDateFormat" by code_simp+
  have h3: "validateEvent (content ?e3)" "isModified Time ?e3"
    "normalizeDate hostAtUTC (date (content ?e3)) = Inr ''2025-06-13''"
    "normalizeTime (time (content ?e3)) = Inl InvalidTimeFormat" by code_simp+
  have h4: "\<not> validateBooking (content ?b1)" by code_simp
  have h5: "validateBooking (content ?b2)" "isNew ?b2"
    "findById (events storeWithEvent) (eventId (content ?b2)) = None" by code_simp+
  note t1 = errors_abort_write [of hostAtUTC storeWithEvent ?e1 FieldValidationError]
  note t2 = errors_abort_write [of hostAtUTC storeWithEvent ?e2 InvalidDateFormat]
  note t3 = errors_abort_write [of hostAtUTC storeWithEvent ?e3 InvalidTimeFormat]
  note t4 = errors_abort_write [of _ storeWithEvent _ FieldValidationError ?b1]
  note t5 = errors_abort_write [of _ storeWithEvent _ DanglingReferenceError ?b2]
  from t1 h1 have r1: "snd (saveEvent hostAtUTC storeWithEvent ?e1) = Inl FieldValidationError"
    by blast
  have s1: "fst (saveEvent hostAtUTC storeWithEvent ?e1) = storeWithEvent"
    using h1 by (simp add: saveEvent_def)
  from t2 h2 have r2: "snd (saveEvent hostAtUTC storeWithEvent ?e2) = Inl InvalidDateFormat"
    by blast
  with t2 have s2: "events (fst (saveEvent hostAtUTC storeWithEvent ?e2)) = events storeWithEvent"
    by blast
  from t3 h3 have r3: "snd (saveEvent hostAtUTC storeWithEvent ?e3) = Inl InvalidTimeFormat"
    by blast
  with t3 have s3: "events (fst (saveEvent hostAtUTC storeWithEvent ?e3)) = events storeWithEvent"
    by blast
  from t4 h4 have r4: "snd (saveBooking storeWithEvent ?b1) = Inl FieldValidationError" by blast
  with t4 have s4: "bookings (fst (saveBooking storeWithEvent ?b1)) = bookings storeWithEvent"
    by blast
  from t5 h5 have r5: "snd (saveBooking storeWithEvent ?b2) = Inl DanglingReferenceError" by blast
  with t5 have s5: "bookings (fst (saveBooking storeWithEvent ?b2)) = bookings storeWithEvent"
    by blast
  from r1 s1 r2 s2 r3 s3 r4 s4 r5 s5 show ?thesis by blast
qed

text \<open>
  C7 fails on the code: an event is accepted with a stored time that is not in the form
  \<open>HH:MM\<close> of the 24-hour clock. The time \<open>"13:30 PM"\<close> is stored as \<open>"25:30"\<close>, and the time
  \<open>"9:00"\<close> is stored as \<open>"9:00"\<close>, with a one-digit hour.
\<close>

theorem event_time_not_canonical:
  "map_option time (findById (events (fst (saveEvent hostAtUTC emptyStore
       (newEvent 1 (sampleEvent\<lparr>time := ''13:30 PM''\<rparr>))))) (Some 1)) = Some ''25:30''
   \<and> \<not> canonicalTime ''25:30''
   \<and> map_option time (findById (events (fst (saveEvent hostAtUTC emptyStore
       (newEvent 1 sampleEvent)))) (Some 1)) = Some ''9:00''
   \<and> \<not> canonicalTime ''9:00''"
proof -
  have 1: "map_option time (findById (events (fst (saveEvent hostAtUTC emptyStore
       (newEvent 1 (sampleEvent\<lparr>time := ''13:30 PM''\<rparr>))))) (Some 1)) = Some ''25:30''"
    by code_simp
  have 2: "map_option time (findById (events (fst (saveEvent hostAtUTC emptyStore
       (newEvent 1 sampleEvent)))) (Some 1)) = Some ''9:00''"
    by code_simp
  have "\<not> matches time24Regex ''25:30''" by code_simp
  then have 3: "\<not> canonicalTime ''25:30''" by (simp add: canonicalTime_def pattern24_iff)
  have 4: "\<not> canonicalTime ''9:00''" by (simp add: canonicalTime_def)
  from 1 2 3 4 show ?thesis by simp
qed

end
